theory Spec2Isabelle
  imports Main "HOL-Library.Multiset" "HOL-Library.Sublist"
begin

section \<open>Errors\<close>

text \<open>
  \<^verbatim>\<open>StorageErrorCode\<close> of \<^verbatim>\<open>cloud-storage.interface.ts\<close>. The services throw plain
  objects \<^verbatim>\<open>{message, code, details}\<close>; every \<^verbatim>\<open>throw\<close> of the source is a value
  of \<open>thrown\<close> returned on the left of a sum.
\<close>

datatype StorageErrorCode =
    UPLOAD_FAILED
  | DELETE_FAILED
  | LIST_FAILED
  | URL_GENERATION_FAILED
  | FILE_NOT_FOUND
  | VALIDATION_FAILED
  | NOT_IMPLEMENTED
  | DATABASE_ERROR
  | DOWNLOAD_FAILED

text \<open>
  \<open>StorageError message code details\<close> is a thrown storage error object;
  \<open>HttpException message status\<close> is what \<^verbatim>\<open>FileService\<close> throws;
  \<open>RawError message has_code\<close> is any other thrown value (an SDK error, a Prisma error, a
  \<^verbatim>\<open>TypeError\<close>), with whether it carries a \<^verbatim>\<open>code\<close> property.
\<close>

datatype thrown =
    StorageError string StorageErrorCode "thrown option"
  | HttpException string nat
  | RawError string bool

fun code_of :: "thrown \<Rightarrow> StorageErrorCode option" where
  "code_of (StorageError m c d) = Some c"
| "code_of (HttpException m st) = None"
| "code_of (RawError m h) = None"

fun details_of :: "thrown \<Rightarrow> thrown option" where
  "details_of (StorageError m c d) = d"
| "details_of (HttpException m st) = None"
| "details_of (RawError m h) = None"

section \<open>The adapter contract and the provider classes\<close>

text \<open>The seven operations of the interface \<^verbatim>\<open>CloudStorageAdapter\<close>.\<close>

datatype operation = Upload | Delete | ListFiles | GetPublicUrl | Exists | GetFileHash | Download

definition CloudStorageAdapter :: "operation list" where
  "CloudStorageAdapter = [Upload, Delete, ListFiles, GetPublicUrl, Exists, GetFileHash, Download]"

datatype adapter_class = GoogleCloudStorageAdapter | AwsS3Adapter | AzureBlobStorageAdapter

text \<open>
  The public methods each class body defines, in the order of the source. A call of a
  method a JavaScript object does not have throws a \<^verbatim>\<open>TypeError\<close>.
\<close>

fun class_methods :: "adapter_class \<Rightarrow> operation list" where
  "class_methods GoogleCloudStorageAdapter =
     [Upload, Delete, ListFiles, GetPublicUrl, Exists, GetFileHash]"
| "class_methods AwsS3Adapter =
     [Upload, Delete, ListFiles, GetPublicUrl, Exists, GetFileHash]"
| "class_methods AzureBlobStorageAdapter =
     [Upload, Download, Delete, ListFiles, GetPublicUrl, Exists, GetFileHash]"

text \<open>
  An adapter instance: its class and the position at which \<^verbatim>\<open>initializeAdapters\<close>
  created it (two instances of one class are different objects).
\<close>

record adapter =
  aid :: nat
  cls :: adapter_class

definition has_method :: "adapter \<Rightarrow> operation \<Rightarrow> bool" where
  "has_method a m = (m \<in> set (class_methods (cls a)))"

definition not_a_function :: thrown where
  "not_a_function = RawError ''TypeError: not a function'' False"

definition undefined_receiver :: thrown where
  "undefined_receiver = RawError ''TypeError: cannot read properties of undefined'' False"

section \<open>Data\<close>

text \<open>\<^verbatim>\<open>Express.Multer.File\<close>, the fields the service reads.\<close>

record MulterFile =
  originalname :: string
  mimetype :: string
  file_size :: int
  buffer :: string

record StorageMetadata =
  sm_fileSize :: "int option"
  sm_mimeType :: string
  sm_fileHash :: string
  sm_width :: "int option"
  sm_height :: "int option"
  sm_duration :: "int option"
  sm_encoding :: "string option"

text \<open>
  \<^verbatim>\<open>StorageUploadResult\<close>; \<open>ur_storageType\<close> is the extra field only the Azure adapter
  sets.
\<close>

record StorageUploadResult =
  ur_storageFileId :: string
  ur_storageUrl :: "string option"
  ur_storageMetadata :: StorageMetadata
  ur_storageType :: "string option"

datatype FileType = IMAGE | VIDEO

text \<open>
  Modelled from the spec: the Prisma schema (the models File, StorageInfo and Branch) is
  not among the source files. The rows carry the fields the services read and write; the
  one-to-one StorageInfo of a File is held in the File row, as \<^verbatim>\<open>include: { storageInfo: true }\<close>
  returns it. Instants are milliseconds.
\<close>

record StorageInfo =
  si_id :: string
  si_fileId :: string
  si_storageType :: "string option"
  si_storageFileId :: string
  si_storageUrl :: "string option"
  si_storageMetadata :: StorageMetadata
  si_isActive :: bool

record File =
  f_id :: string
  f_name :: string
  f_type :: FileType
  f_status :: string
  f_mimeType :: string
  f_fileSize :: int
  f_fileHash :: string
  f_width :: "int option"
  f_height :: "int option"
  f_duration :: "int option"
  f_encoding :: "string option"
  f_metadata :: "string option"
  f_year :: int
  f_month :: int
  f_branchId :: string
  f_accessCount :: int
  f_createdAt :: int
  f_updatedAt :: int
  f_deletedAt :: "int option"
  f_storageInfo :: "StorageInfo option"

record Branch =
  b_id :: string
  b_name :: string

section \<open>The service state and its environment\<close>

datatype adapter_call =
    UploadCall adapter string
  | DownloadCall adapter string
  | DeleteCall adapter string

text \<open>
  The fields of \<^verbatim>\<open>StorageService\<close> (\<open>adapters\<close>, \<open>adapterList\<close>, \<open>currentAdapterIndex\<close>),
  the committed rows of the metadata store, and the adapter methods invoked so far.
\<close>

record state =
  adapters :: "string \<rightharpoonup> adapter"
  adapterList :: "adapter list"
  currentAdapterIndex :: nat
  files :: "File list"
  branches :: "Branch list"
  calls :: "adapter_call list"

datatype db_call =
    FileCreate
  | StorageInfoCreate
  | FileFindFirst
  | FileFindUnique
  | FileFindMany
  | FileCount
  | FileUpdate
  | FileDelete
  | BranchFindFirst

text \<open>
  What the outside world answers during one service call: the outcome of each adapter
  method, whether a metadata-store call faults, the clock, the generated row ids, and
  JavaScript's number coercions (\<open>None\<close> is \<^verbatim>\<open>NaN\<close>).
\<close>

record env =
  upload_result :: "adapter \<Rightarrow> MulterFile \<Rightarrow> thrown + StorageUploadResult"
  download_result :: "adapter \<Rightarrow> string \<Rightarrow> thrown + string"
  delete_result :: "adapter \<Rightarrow> string \<Rightarrow> thrown option"
  db_fails :: "db_call \<Rightarrow> bool"
  now :: int
  current_year :: int
  current_month :: int
  fresh_file_id :: string
  fresh_info_id :: string
  to_number :: "string option \<Rightarrow> int option"
  number_string :: "int \<Rightarrow> string"

definition prisma_error :: thrown where
  "prisma_error = RawError ''PrismaClientKnownRequestError'' True"

section \<open>Round robin and failover\<close>

text \<open>
  \<^verbatim>\<open>getNextAdapter\<close>: the adapter under the cursor (\<^verbatim>\<open>undefined\<close> when the cursor is
  out of range), then the cursor advances modulo the list's length. Its only caller
  runs it under \<open>i < adapterList.length\<close>, so the list is not empty there.
\<close>

definition getNextAdapter :: "state \<Rightarrow> adapter option \<times> state" where
  "getNextAdapter s =
     (let adapter = (if currentAdapterIndex s < length (adapterList s)
                     then Some (adapterList s ! currentAdapterIndex s) else None)
      in (adapter,
          s\<lparr>currentAdapterIndex := (currentAdapterIndex s + 1) mod length (adapterList s)\<rparr>))"

text \<open>\<^verbatim>\<open>adapter.upload(file, file.originalname)\<close>.\<close>

definition call_upload ::
  "env \<Rightarrow> adapter \<Rightarrow> MulterFile \<Rightarrow> state \<Rightarrow> (thrown + StorageUploadResult) \<times> state" where
  "call_upload e a file s =
     (if has_method a Upload
      then (upload_result e a file, s\<lparr>calls := calls s @ [UploadCall a (originalname file)]\<rparr>)
      else (Inl not_a_function, s))"

text \<open>
  The \<^verbatim>\<open>for\<close> loop of \<^verbatim>\<open>uploadToStorage\<close> from index \<open>i\<close>. Leaving the loop without a
  return gives \<^verbatim>\<open>undefined\<close>, here \<open>Inr None\<close>. Were the adapter \<^verbatim>\<open>undefined\<close>, the call
  of its \<^verbatim>\<open>upload\<close> would throw inside the \<^verbatim>\<open>try\<close> and the \<^verbatim>\<open>catch\<close>, which reads
  \<^verbatim>\<open>adapter.constructor.name\<close>, would throw again.
\<close>

function uploadToStorage_loop ::
  "env \<Rightarrow> MulterFile \<Rightarrow> nat \<Rightarrow> state \<Rightarrow> (thrown + StorageUploadResult option) \<times> state" where
  "uploadToStorage_loop e file i s =
     (if i < length (adapterList s) then
        (let s1 = snd (getNextAdapter s)
         in case fst (getNextAdapter s) of
              None \<Rightarrow> (Inl undefined_receiver, s1)
            | Some adapter \<Rightarrow>
                (let r = call_upload e adapter file s1;
                     s2 = snd r
                 in case fst r of
                      Inr res \<Rightarrow> (Inr (Some res), s2)
                    | Inl error \<Rightarrow>
                        if i = length (adapterList s2) - 1
                        then (Inl (StorageError ''All storage adapters failed to upload the file''
                                     UPLOAD_FAILED (Some error)), s2)
                        else uploadToStorage_loop e file (i + 1) s2))
      else (Inr None, s))"
  by pat_completeness auto

termination
  by (relation "measure (\<lambda>(e, file, i, s). length (adapterList s) - i)")
     (auto simp add: getNextAdapter_def call_upload_def Let_def)

declare uploadToStorage_loop.simps [simp del]

definition uploadToStorage ::
  "env \<Rightarrow> MulterFile \<Rightarrow> state \<Rightarrow> (thrown + StorageUploadResult option) \<times> state" where
  "uploadToStorage e file s = uploadToStorage_loop e file 0 s"

text \<open>
  The adapter a recorded call went to, the adapters invoked between two states, and a
  run of consecutive uploads, each with the environment it met.
\<close>

fun call_adapter :: "adapter_call \<Rightarrow> adapter" where
  "call_adapter (UploadCall a k) = a"
| "call_adapter (DownloadCall a k) = a"
| "call_adapter (DeleteCall a k) = a"

definition attempted :: "state \<Rightarrow> state \<Rightarrow> adapter list" where
  "attempted s s' = map call_adapter (drop (length (calls s)) (calls s'))"

fun upload_sequence :: "(env \<times> MulterFile) list \<Rightarrow> state \<Rightarrow> state" where
  "upload_sequence [] s = s"
| "upload_sequence (u # us) s = upload_sequence us (snd (uploadToStorage (fst u) (snd u) s))"

section \<open>The metadata store\<close>

text \<open>
  Prisma's interactive transaction \<^verbatim>\<open>$transaction(async (prisma) => ...)\<close>: writes issued
  through the callback's client \<^verbatim>\<open>prisma\<close> are held until the callback returns and are
  dropped when it throws; a query issued through the service's own client
  \<^verbatim>\<open>this.prisma\<close> is not part of the transaction and is committed at once. The callback
  therefore returns its result, the state with what was committed outside the
  transaction, and the writes it made through the transaction client.
\<close>

datatype tx_write =
    CreateStorageInfo StorageInfo
  | DeleteFile string
  | SoftDelete string int

fun apply_write :: "tx_write \<Rightarrow> File list \<Rightarrow> File list" where
  "apply_write (CreateStorageInfo info) rows =
     map (\<lambda>f. if f_id f = si_fileId info then f\<lparr>f_storageInfo := Some info\<rparr> else f) rows"
| "apply_write (DeleteFile i) rows = filter (\<lambda>f. f_id f \<noteq> i) rows"
| "apply_write (SoftDelete i t) rows =
     map (\<lambda>f. if f_id f = i
              then f\<lparr>f_deletedAt := Some t,
                     f_storageInfo := map_option (\<lambda>info. info\<lparr>si_isActive := False\<rparr>) (f_storageInfo f)\<rparr>
              else f) rows"

definition transaction ::
  "(state \<Rightarrow> (thrown + 'a) \<times> state \<times> tx_write list) \<Rightarrow> state \<Rightarrow> (thrown + 'a) \<times> state" where
  "transaction body s =
     (case body s of
        (Inl error, s', writes) \<Rightarrow> (Inl error, s')
      | (Inr v, s', writes) \<Rightarrow> (Inr v, s'\<lparr>files := fold apply_write writes (files s')\<rparr>))"

section \<open>Upload\<close>

text \<open>\<^verbatim>\<open>String.prototype.split\<close> on a one-character separator.\<close>

fun split_on :: "char \<Rightarrow> string \<Rightarrow> string list" where
  "split_on c [] = [[]]"
| "split_on c (x # xs) =
     (if x = c then [] # split_on c xs
      else (case split_on c xs of [] \<Rightarrow> [[x]] | p # ps \<Rightarrow> (x # p) # ps))"

definition determineFileType :: "string \<Rightarrow> FileType" where
  "determineFileType mimeType = (if prefix ''image/'' mimeType then IMAGE else VIDEO)"

record UploadFileRequestDto =
  ud_destination :: string
  ud_year :: int
  ud_month :: int
  ud_branchId :: string
  ud_type :: FileType

record UploadFileResponseDto =
  resp_storageFileId :: string
  resp_storageUrl :: "string option"
  resp_storageMetadata :: StorageMetadata

text \<open>\<^verbatim>\<open>+x || fallback\<close>: the fallback when the coercion is \<^verbatim>\<open>NaN\<close> or zero.\<close>

definition number_or :: "int option \<Rightarrow> int \<Rightarrow> int" where
  "number_or n fallback = (case n of None \<Rightarrow> fallback | Some v \<Rightarrow> if v = 0 then fallback else v)"

definition nth_opt :: "'a list \<Rightarrow> nat \<Rightarrow> 'a option" where
  "nth_opt xs i = (if i < length xs then Some (xs ! i) else None)"

text \<open>
  \<^verbatim>\<open>createFileRecord\<close>. The row is created through \<^verbatim>\<open>this.prisma\<close>, the service's own
  client, so it is committed when the call returns. Reading
  \<^verbatim>\<open>uploadResult.storageMetadata\<close> of an undefined upload result throws inside the
  \<^verbatim>\<open>try\<close>. The id, the access count of zero and the creation instant are the
  schema's defaults.
\<close>

definition createFileRecord ::
  "env \<Rightarrow> MulterFile \<Rightarrow> StorageUploadResult option \<Rightarrow> UploadFileRequestDto \<Rightarrow> state
     \<Rightarrow> (thrown + File) \<times> state" where
  "createFileRecord e file uploadResult dto s =
     (let parts = split_on CHR ''_'' (originalname file);
          year = nth_opt parts 0;
          month = nth_opt parts 1
      in case uploadResult of
           None \<Rightarrow>
             (Inl (StorageError ''Failed to create file record'' DATABASE_ERROR
                     (Some undefined_receiver)), s)
         | Some r \<Rightarrow>
             if db_fails e FileCreate
             then (Inl (StorageError ''Failed to create file record'' DATABASE_ERROR
                          (Some prisma_error)), s)
             else
               (let row = \<lparr>f_id = fresh_file_id e,
                           f_name = originalname file,
                           f_type = determineFileType (mimetype file),
                           f_status = ''COMPLETE'',
                           f_mimeType = mimetype file,
                           f_fileSize = file_size file,
                           f_fileHash = sm_fileHash (ur_storageMetadata r),
                           f_width = sm_width (ur_storageMetadata r),
                           f_height = sm_height (ur_storageMetadata r),
                           f_duration = sm_duration (ur_storageMetadata r),
                           f_encoding = sm_encoding (ur_storageMetadata r),
                           f_metadata = None,
                           f_year = number_or (to_number e year) (current_year e),
                           f_month = number_or (to_number e month) (current_month e + 1),
                           f_branchId = ud_branchId dto,
                           f_accessCount = 0,
                           f_createdAt = now e,
                           f_updatedAt = now e,
                           f_deletedAt = None,
                           f_storageInfo = None\<rparr>
                in (Inr row, s\<lparr>files := files s @ [row]\<rparr>)))"

definition upload_transaction_failed :: "thrown \<Rightarrow> thrown" where
  "upload_transaction_failed error =
     StorageError ''Failed to complete file upload transaction'' DATABASE_ERROR (Some error)"

text \<open>
  The callback of \<^verbatim>\<open>uploadFile\<close>: everything is inside one \<^verbatim>\<open>try\<close>, whose
  \<^verbatim>\<open>catch\<close> rethrows whatever was thrown as \<open>DATABASE_ERROR\<close>. Only
  \<^verbatim>\<open>prisma.storageInfo.create\<close> goes through the transaction client.
\<close>

definition uploadFile_callback ::
  "env \<Rightarrow> UploadFileRequestDto \<Rightarrow> MulterFile \<Rightarrow> state
     \<Rightarrow> (thrown + UploadFileResponseDto) \<times> state \<times> tx_write list" where
  "uploadFile_callback e dto file s =
     (case uploadToStorage e file s of
        (Inl error, s1) \<Rightarrow> (Inl (upload_transaction_failed error), s1, [])
      | (Inr uploadResult, s1) \<Rightarrow>
          (case createFileRecord e file uploadResult dto s1 of
             (Inl error, s2) \<Rightarrow> (Inl (upload_transaction_failed error), s2, [])
           | (Inr fileRecord, s2) \<Rightarrow>
               (case uploadResult of
                  None \<Rightarrow> (Inl (upload_transaction_failed undefined_receiver), s2, [])
                | Some r \<Rightarrow>
                    if db_fails e StorageInfoCreate
                    then (Inl (upload_transaction_failed prisma_error), s2, [])
                    else
                      (Inr \<lparr>resp_storageFileId = f_id fileRecord,
                            resp_storageUrl = ur_storageUrl r,
                            resp_storageMetadata = ur_storageMetadata r\<rparr>,
                       s2,
                       [CreateStorageInfo
                          \<lparr>si_id = fresh_info_id e,
                           si_fileId = f_id fileRecord,
                           si_storageType = ur_storageType r,
                           si_storageFileId = ur_storageFileId r,
                           si_storageUrl = ur_storageUrl r,
                           si_storageMetadata = ur_storageMetadata r,
                           si_isActive = True\<rparr>]))))"

definition uploadFile ::
  "env \<Rightarrow> UploadFileRequestDto \<Rightarrow> MulterFile \<Rightarrow> state
     \<Rightarrow> (thrown + UploadFileResponseDto) \<times> state" where
  "uploadFile e dto file s = transaction (uploadFile_callback e dto file) s"

section \<open>Download\<close>

record DownloadResult =
  dl_stream :: string
  dl_filename :: string
  dl_mimetype :: string

definition download_failed :: "thrown \<Rightarrow> thrown" where
  "download_failed error = StorageError ''Failed to download file'' DOWNLOAD_FAILED (Some error)"

definition increment_access :: "string \<Rightarrow> File list \<Rightarrow> File list" where
  "increment_access i rows =
     map (\<lambda>f. if f_id f = i then f\<lparr>f_accessCount := f_accessCount f + 1\<rparr> else f) rows"

text \<open>
  \<^verbatim>\<open>StorageService.downloadFile(storageFileId, storageType)\<close>. The lookup filters on the
  id only; the adapter is the one registered under the \<^verbatim>\<open>storageType\<close> argument; the
  batch transaction holding the counter update is committed before
  \<^verbatim>\<open>adapter.download\<close> is called, and the \<^verbatim>\<open>catch\<close> turns whatever the \<^verbatim>\<open>try\<close> throws
  into \<open>DOWNLOAD_FAILED\<close>.
\<close>

definition downloadFile ::
  "env \<Rightarrow> string \<Rightarrow> string \<Rightarrow> state \<Rightarrow> (thrown + DownloadResult) \<times> state" where
  "downloadFile e storageFileId storageType s =
     (if db_fails e FileFindFirst then (Inl prisma_error, s)
      else case find (\<lambda>f. f_id f = storageFileId) (files s) of
        None \<Rightarrow> (Inl (StorageError ''File not found'' FILE_NOT_FOUND None), s)
      | Some fileWithStorage \<Rightarrow>
          (case f_storageInfo fileWithStorage of
             None \<Rightarrow> (Inl (StorageError ''File not found'' FILE_NOT_FOUND None), s)
           | Some info \<Rightarrow>
               (case adapters s storageType of
                  None \<Rightarrow>
                    (Inl (StorageError (''Storage provider not available for type: '' @ storageType)
                            VALIDATION_FAILED None), s)
                | Some adapter \<Rightarrow>
                    if db_fails e FileUpdate then (Inl (download_failed prisma_error), s)
                    else
                      (let s1 = s\<lparr>files := increment_access storageFileId (files s)\<rparr>;
                           updatedFile = fileWithStorage\<lparr>f_accessCount := f_accessCount fileWithStorage + 1\<rparr>
                       in if \<not> has_method adapter Download
                          then (Inl (download_failed not_a_function), s1)
                          else
                            (let s2 = s1\<lparr>calls := calls s1 @ [DownloadCall adapter (si_storageFileId info)]\<rparr>
                             in case download_result e adapter (si_storageFileId info) of
                                  Inl error \<Rightarrow> (Inl (download_failed error), s2)
                                | Inr stream \<Rightarrow>
                                    (Inr \<lparr>dl_stream = stream,
                                          dl_filename = f_name updatedFile,
                                          dl_mimetype = f_mimeType updatedFile\<rparr>, s2))))))"

section \<open>Delete\<close>



text \<open>\<^verbatim>\<open>adapter.delete(key)\<close>: the outcome and the state with the call recorded.\<close>

definition call_delete :: "env \<Rightarrow> adapter \<Rightarrow> string \<Rightarrow> state \<Rightarrow> thrown option \<times> state" where
  "call_delete e a key s =
     (if has_method a Delete
      then (delete_result e a key, s\<lparr>calls := calls s @ [DeleteCall a key]\<rparr>)
      else (Some not_a_function, s))"

text \<open>
  The \<^verbatim>\<open>try\<close> block of a permanent delete: the adapter registered under the stored
  provider tag, if there is one, is asked to delete the object; the \<^verbatim>\<open>catch\<close> only
  logs, so the outcome is dropped.
\<close>

definition delete_from_storage :: "env \<Rightarrow> File \<Rightarrow> state \<Rightarrow> state" where
  "delete_from_storage e file s =
     (case f_storageInfo file of
        None \<Rightarrow> s
      | Some info \<Rightarrow>
          (case si_storageType info of
             None \<Rightarrow> s
           | Some tag \<Rightarrow>
               (case adapters s tag of
                  None \<Rightarrow> s
                | Some adapter \<Rightarrow> snd (call_delete e adapter (si_storageFileId info) s))))"



section \<open>Listing and lookup by path\<close>

record ListFilesRequestDto =
  lf_prefix :: "string option"
  lf_page :: "int option"
  lf_limit :: "int option"
  lf_branchId :: "string option"
  lf_fileType :: "string option"

record FileInfoDto =
  fi_storageFileId :: string
  fi_fileName :: string
  fi_fileType :: FileType
  fi_fileStatus :: string
  fi_mimeType :: string
  fi_fileSize :: int
  fi_fileHash :: string
  fi_width :: "int option"
  fi_height :: "int option"
  fi_duration :: "int option"
  fi_encoding :: "string option"
  fi_metadata :: "string option"
  fi_path :: string
  fi_createdAt :: int
  fi_updatedAt :: int
  fi_deletedAt :: "int option"
  fi_storageUrl :: "string option"
  fi_isActive :: bool
  fi_storageType :: "string option"

record ListFilesResponseDto =
  lr_files :: "FileInfoDto list"
  lr_totalCount :: int
  lr_currentPage :: int
  lr_totalPages :: int

text \<open>\<^verbatim>\<open>mapToFileInfoDto\<close>, the same in \<^verbatim>\<open>StorageService\<close> and \<^verbatim>\<open>FileService\<close>.\<close>

definition mapToFileInfoDto :: "env \<Rightarrow> File \<Rightarrow> StorageInfo option \<Rightarrow> FileInfoDto" where
  "mapToFileInfoDto e file storageInfo =
     \<lparr>fi_storageFileId = f_id file,
      fi_fileName = f_name file,
      fi_fileType = f_type file,
      fi_fileStatus = f_status file,
      fi_mimeType = f_mimeType file,
      fi_fileSize = f_fileSize file,
      fi_fileHash = f_fileHash file,
      fi_width = f_width file,
      fi_height = f_height file,
      fi_duration = f_duration file,
      fi_encoding = f_encoding file,
      fi_metadata = f_metadata file,
      fi_path = number_string e (f_year file) @ ''/'' @ number_string e (f_month file) @ ''/''
                  @ f_branchId file,
      fi_createdAt = f_createdAt file,
      fi_updatedAt = f_updatedAt file,
      fi_deletedAt = f_deletedAt file,
      fi_storageUrl = (case storageInfo of None \<Rightarrow> None | Some i \<Rightarrow> si_storageUrl i),
      fi_isActive = (f_deletedAt file = None
                      \<and> (case storageInfo of None \<Rightarrow> False | Some i \<Rightarrow> si_isActive i)),
      fi_storageType = (case storageInfo of None \<Rightarrow> None | Some i \<Rightarrow> si_storageType i)\<rparr>"

text \<open>
  The \<^verbatim>\<open>where\<close> object of \<^verbatim>\<open>listFiles\<close>: an undefined \<^verbatim>\<open>branchId\<close> is no filter,
  \<^verbatim>\<open>deletedAt: null\<close> always is one, and the \<^verbatim>\<open>OR\<close> is spread in only for a non-empty
  prefix.
\<close>

definition listFiles_where :: "ListFilesRequestDto \<Rightarrow> File \<Rightarrow> bool" where
  "listFiles_where dto f =
     ((case lf_branchId dto of None \<Rightarrow> True | Some b \<Rightarrow> f_branchId f = b)
      \<and> f_deletedAt f = None
      \<and> (case lf_prefix dto of
            None \<Rightarrow> True
          | Some p \<Rightarrow>
              if p = [] then True
              else prefix p (f_name f)
                   \<or> (case f_storageInfo f of None \<Rightarrow> False
                        | Some i \<Rightarrow> prefix p (si_storageFileId i))))"

text \<open>
  \<^verbatim>\<open>take\<close> and \<^verbatim>\<open>skip\<close> of \<^verbatim>\<open>findMany\<close>: a \<^verbatim>\<open>skip\<close> that is \<^verbatim>\<open>NaN\<close> (a page or a
  limit is undefined) or negative is refused by the client; a negative \<^verbatim>\<open>take\<close> counts
  from the end of the list.
\<close>

definition take_skip :: "int option \<Rightarrow> int option \<Rightarrow> 'a list \<Rightarrow> thrown + 'a list" where
  "take_skip tk sk rows =
     (case sk of
        None \<Rightarrow> Inl prisma_error
      | Some k \<Rightarrow>
          if k < 0 then Inl prisma_error
          else (case tk of
                  None \<Rightarrow> Inr (drop (nat k) rows)
                | Some n \<Rightarrow>
                    if 0 \<le> n then Inr (take (nat n) (drop (nat k) rows))
                    else Inr (rev (take (nat (- n)) (drop (nat k) (rev rows))))))"

definition listFiles ::
  "env \<Rightarrow> ListFilesRequestDto \<Rightarrow> state \<Rightarrow> thrown + ListFilesResponseDto" where
  "listFiles e dto s =
     (let matching = sort_key (\<lambda>f. - f_createdAt f) (filter (listFiles_where dto) (files s));
          skip = (case (lf_page dto, lf_limit dto) of
                    (Some p, Some l) \<Rightarrow> Some ((p - 1) * l)
                  | _ \<Rightarrow> None);
          totalCount = int (length matching);
          limit = (case lf_limit dto of None \<Rightarrow> 10 | Some l \<Rightarrow> if l = 0 then 10 else l)
      in if db_fails e FileFindMany \<or> db_fails e FileCount then Inl prisma_error
         else case take_skip (lf_limit dto) skip matching of
                Inl error \<Rightarrow> Inl error
              | Inr rows \<Rightarrow>
                  Inr \<lparr>lr_files = map (\<lambda>file. mapToFileInfoDto e file (f_storageInfo file)) rows,
                       lr_totalCount = totalCount,
                       lr_currentPage =
                         (case lf_page dto of None \<Rightarrow> 1 | Some p \<Rightarrow> if p = 0 then 1 else p),
                       lr_totalPages = - ((- totalCount) div limit)\<rparr>)"

text \<open>
  The \<^verbatim>\<open>where\<close> object of the file query of \<^verbatim>\<open>getFileByUrl\<close>.
\<close>

definition getFileByUrl_where ::
  "env \<Rightarrow> int \<Rightarrow> int \<Rightarrow> Branch \<Rightarrow> string \<Rightarrow> string \<Rightarrow> File \<Rightarrow> bool" where
  "getFileByUrl_where e yearNum monthNum branch branchName filename f =
     (f_year f = yearNum \<and> f_month f = monthNum \<and> f_branchId f = b_id branch
      \<and> f_name f = number_string e yearNum @ ''_'' @ number_string e monthNum @ ''_''
                      @ branchName @ ''_'' @ filename
      \<and> f_deletedAt f = None)"

text \<open>
  \<^verbatim>\<open>FileService.getFileByUrl\<close> once the path has been split into its four parts: year
  and month are coerced to numbers; the branch is found by name and the file by year,
  month, branch, rebuilt name and \<^verbatim>\<open>deletedAt: null\<close>.
\<close>

definition getFileByUrl_parts ::
  "env \<Rightarrow> string \<Rightarrow> string \<Rightarrow> string \<Rightarrow> string \<Rightarrow> state \<Rightarrow> thrown + FileInfoDto" where
  "getFileByUrl_parts e year month branchName filename s =
     (case (to_number e (Some year), to_number e (Some month)) of
        (Some yearNum, Some monthNum) \<Rightarrow>
          if monthNum < 1 \<or> 12 < monthNum
          then Inl (HttpException ''Invalid year or month in URL'' 400)
          else if db_fails e BranchFindFirst then Inl prisma_error
          else
            (case find (\<lambda>b. b_name b = branchName) (branches s) of
               None \<Rightarrow> Inl (HttpException ''Branch not found'' 404)
             | Some branch \<Rightarrow>
                 if db_fails e FileFindFirst then Inl prisma_error
                 else
                   (case find (getFileByUrl_where e yearNum monthNum branch branchName filename)
                           (files s) of
                      None \<Rightarrow> Inl (HttpException ''File not found'' 404)
                    | Some file \<Rightarrow> Inr (mapToFileInfoDto e file (f_storageInfo file))))
      | _ \<Rightarrow> Inl (HttpException ''Invalid year or month in URL'' 400))"

text \<open>\<^verbatim>\<open>FileService.getFileByUrl\<close>: the path must have exactly four parts.\<close>

definition getFileByUrl :: "env \<Rightarrow> string \<Rightarrow> state \<Rightarrow> thrown + FileInfoDto" where
  "getFileByUrl e path s =
     (case split_on CHR ''/'' path of
        [year, month, branchName, filename] \<Rightarrow> getFileByUrl_parts e year month branchName filename s
      | _ \<Rightarrow>
          Inl (HttpException
                 ''Invalid file URL structure. Expected format: /year/month/branchName/filename''
                 400))"

section \<open>The signed-URL cache of an adapter\<close>




text \<open>
  What the provider answers: the signing request (for a key and the expiry argument the
  adapter passes), the existence check, and what \<^verbatim>\<open>extractErrorDetails\<close> selects from an
  SDK error.
\<close>

record provider =
  sign_result :: "string \<Rightarrow> int \<Rightarrow> thrown + string"
  exists_result :: "string \<Rightarrow> thrown + bool"
  extract_details :: "thrown \<Rightarrow> thrown option"








section \<open>Auxiliary notions for the failover loop\<close>

text \<open>
  The adapter that the k-th attempt of a call started in state \<open>s\<close> reaches, and the state
  after \<open>n\<close> attempts: the cursor has advanced \<open>n\<close> times and \<open>n\<close> uploads are recorded.
\<close>

definition attempt :: "state \<Rightarrow> nat \<Rightarrow> adapter" where
  "attempt s k = adapterList s ! ((currentAdapterIndex s + k) mod length (adapterList s))"

definition after_attempts :: "MulterFile \<Rightarrow> nat \<Rightarrow> state \<Rightarrow> state" where
  "after_attempts file n s =
     s\<lparr>currentAdapterIndex := (currentAdapterIndex s + n) mod length (adapterList s),
       calls := calls s @ map (\<lambda>j. UploadCall (attempt s j) (originalname file)) [0..<n]\<rparr>"

section \<open>Sample data\<close>

text \<open>
  Two configured adapters with the cursor on the second, environments in which every
  provider fails or every provider answers, and a few stored files.
\<close>

definition aws0 :: adapter where "aws0 = \<lparr>aid = 0, cls = AwsS3Adapter\<rparr>"

definition azure1 :: adapter where "azure1 = \<lparr>aid = 1, cls = AzureBlobStorageAdapter\<rparr>"

definition photo :: MulterFile where
  "photo = \<lparr>originalname = ''2024_3_seoul_a.jpg'', mimetype = ''image/jpeg'', file_size = 10, buffer = ''bytes''\<rparr>"

definition two_adapters :: state where
  "two_adapters = \<lparr>adapters = [''aws'' \<mapsto> aws0, ''azure'' \<mapsto> azure1], adapterList = [aws0, azure1],
     currentAdapterIndex = Suc 0, files = [], branches = [], calls = []\<rparr>"

definition provider_down :: "adapter \<Rightarrow> thrown" where
  "provider_down a = StorageError ''File upload failed'' UPLOAD_FAILED
      (Some (RawError (if cls a = AwsS3Adapter then ''s3 unreachable'' else ''blob unreachable'') False))"

definition all_down :: env where
  "all_down = \<lparr>upload_result = (\<lambda>a f. Inl (provider_down a)),
     download_result = (\<lambda>a k. Inl (RawError ''down'' False)),
     delete_result = (\<lambda>a k. Some (RawError ''down'' False)),
     db_fails = (\<lambda>c. False), now = 1000, current_year = 2024, current_month = 2,
     fresh_file_id = ''f1'', fresh_info_id = ''i1'',
     to_number = (\<lambda>x. None), number_string = (\<lambda>n. [])\<rparr>"

definition sample_metadata :: StorageMetadata where
  "sample_metadata = \<lparr>sm_fileSize = Some 10, sm_mimeType = ''image/jpeg'', sm_fileHash = ''abc'',
     sm_width = None, sm_height = None, sm_duration = None, sm_encoding = None\<rparr>"

definition stored_by :: "adapter \<Rightarrow> MulterFile \<Rightarrow> StorageUploadResult" where
  "stored_by a f = \<lparr>ur_storageFileId = originalname f, ur_storageUrl = Some ''https://signed'',
     ur_storageMetadata = sample_metadata,
     ur_storageType = (if cls a = AzureBlobStorageAdapter then Some ''AZURE'' else None)\<rparr>"

definition all_up :: env where
  "all_up = \<lparr>upload_result = (\<lambda>a f. Inr (stored_by a f)),
     download_result = (\<lambda>a k. Inr ''bytes''),
     delete_result = (\<lambda>a k. None),
     db_fails = (\<lambda>c. False), now = 1000, current_year = 2024, current_month = 2,
     fresh_file_id = ''f1'', fresh_info_id = ''i1'',
     to_number = (\<lambda>x. if x = Some ''2024'' then Some 2024 else if x = Some ''3'' then Some 3 else None),
     number_string = (\<lambda>n. if n = 2024 then ''2024'' else if n = 3 then ''3'' else ''0'')\<rparr>"

definition upload_request :: UploadFileRequestDto where
  "upload_request = \<lparr>ud_destination = ''2024/3/seoul/a.jpg'', ud_year = 2024, ud_month = 3,
     ud_branchId = ''b1'', ud_type = IMAGE\<rparr>"

definition info_create_fails :: env where
  "info_create_fails = all_up\<lparr>db_fails := (\<lambda>c. c = StorageInfoCreate)\<rparr>"

definition info_on :: "string \<Rightarrow> string \<Rightarrow> StorageInfo" where
  "info_on i tag = \<lparr>si_id = ''i-'' @ i, si_fileId = i, si_storageType = Some tag,
     si_storageFileId = ''2024_3_seoul_a.jpg'', si_storageUrl = Some ''https://signed'',
     si_storageMetadata = sample_metadata, si_isActive = True\<rparr>"

definition file_on :: "string \<Rightarrow> string \<Rightarrow> File" where
  "file_on i tag = \<lparr>f_id = i, f_name = ''2024_3_seoul_a.jpg'', f_type = IMAGE,
     f_status = ''COMPLETE'', f_mimeType = ''image/jpeg'', f_fileSize = 10, f_fileHash = ''abc'',
     f_width = None, f_height = None, f_duration = None, f_encoding = None, f_metadata = None,
     f_year = 2024, f_month = 3, f_branchId = ''b1'', f_accessCount = 0, f_createdAt = 100,
     f_updatedAt = 100, f_deletedAt = None, f_storageInfo = Some (info_on i tag)\<rparr>"

definition library :: state where
  "library = two_adapters\<lparr>files := [file_on ''f1'' ''google'', file_on ''f2'' ''azure''],
     branches := [\<lparr>b_id = ''b1'', b_name = ''seoul''\<rparr>]\<rparr>"

section \<open>Auxiliary notions for downloads and deletes\<close>


text \<open>The file with the given id exists and has a StorageInfo.\<close>

definition has_storage :: "state \<Rightarrow> string \<Rightarrow> bool" where
  "has_storage s i =
     (case find (\<lambda>f. f_id f = i) (files s) of
        None \<Rightarrow> False
      | Some f \<Rightarrow> f_storageInfo f \<noteq> None)"

text \<open>The access counter of the file with the given id.\<close>

definition accessCount_of :: "state \<Rightarrow> string \<Rightarrow> int option" where
  "accessCount_of s i = map_option f_accessCount (find (\<lambda>f. f_id f = i) (files s))"

section \<open>More sample data\<close>

definition stream_fails :: env where
  "stream_fails = all_up\<lparr>download_result :=
     (\<lambda>a k. Inl (StorageError ''Failed to download file'' DOWNLOAD_FAILED None))\<rparr>"


definition deleted_file :: File where
  "deleted_file = (file_on ''f3'' ''azure'')\<lparr>f_deletedAt := Some 500,
     f_storageInfo := Some ((info_on ''f3'' ''azure'')\<lparr>si_isActive := False\<rparr>)\<rparr>"

definition archive :: state where
  "archive = library\<lparr>files := [deleted_file, file_on ''f2'' ''azure'']\<rparr>"

definition first_page :: ListFilesRequestDto where
  "first_page = \<lparr>lf_prefix = None, lf_page = Some 1, lf_limit = Some 10, lf_branchId = Some ''b1'',
     lf_fileType = None\<rparr>"

section \<open>Auxiliary notions for the signed-URL cache\<close>







section \<open>Start-up\<close>

text \<open>The environment variables the factory and the adapter constructors read.\<close>

record process_env =
  ENABLED_CLOUD_PROVIDERS :: "string option"
  GCP_CREDENTIALS :: "string option"
  GCP_BUCKET_NAME :: "string option"
  AWS_REGION :: "string option"
  AWS_BUCKET_NAME :: "string option"
  AZURE_STORAGE_CONNECTION_STRING :: "string option"
  AZURE_CONTAINER_NAME :: "string option"

definition truthy :: "string option \<Rightarrow> bool" where
  "truthy v = (case v of None \<Rightarrow> False | Some x \<Rightarrow> x \<noteq> [])"

definition missing_variables :: "string \<Rightarrow> thrown" where
  "missing_variables m = StorageError m VALIDATION_FAILED None"

text \<open>
  \<^verbatim>\<open>CloudStorageFactory.createAdapter({ provider })\<close> followed by the constructor of the
  class; \<open>n\<close> numbers the instance. The factory is called with the provider only, so
  every setting comes from the environment.
\<close>

definition createAdapter :: "process_env \<Rightarrow> nat \<Rightarrow> string \<Rightarrow> thrown + adapter" where
  "createAdapter pe n provider =
     (if provider = ''google'' then
        (if \<not> truthy (GCP_BUCKET_NAME pe)
         then Inl (RawError ''Google Cloud Storage requires a valid bucket name'' False)
         else if \<not> truthy (GCP_CREDENTIALS pe) \<or> \<not> truthy (GCP_BUCKET_NAME pe)
         then Inl (missing_variables
                ''Missing required environment variables: GCP_CREDENTIALS and/or GCP_BUCKET_NAME'')
         else Inr \<lparr>aid = n, cls = GoogleCloudStorageAdapter\<rparr>)
      else if provider = ''aws'' then
        (if \<not> truthy (AWS_BUCKET_NAME pe) \<or> \<not> truthy (AWS_REGION pe)
         then Inl (StorageError ''AWS S3 requires a valid bucket name and region''
                     VALIDATION_FAILED None)
         else Inr \<lparr>aid = n, cls = AwsS3Adapter\<rparr>)
      else if provider = ''azure'' then
        (if \<not> truthy (AZURE_STORAGE_CONNECTION_STRING pe) \<or> \<not> truthy (AZURE_CONTAINER_NAME pe)
         then Inl (StorageError
                     ''Azure Blob Storage requires a valid connection string and container name''
                     VALIDATION_FAILED None)
         else Inr \<lparr>aid = n, cls = AzureBlobStorageAdapter\<rparr>)
      else Inl (StorageError ''Unsupported provider'' VALIDATION_FAILED None))"

text \<open>
  The callbacks of \<^verbatim>\<open>enabledProviders.map\<close> in \<^verbatim>\<open>initializeAdapters\<close>: none of them
  awaits, so they all run in order, each registering its adapter or throwing;
  \<^verbatim>\<open>Promise.all\<close> rejects with the first error. \<open>normalise\<close> is
  \<^verbatim>\<open>provider.trim().toLowerCase()\<close>.
\<close>

fun register_all ::
  "process_env \<Rightarrow> (string \<Rightarrow> string) \<Rightarrow> string list \<Rightarrow> state \<Rightarrow> thrown option \<times> state" where
  "register_all pe normalise [] s = (None, s)"
| "register_all pe normalise (provider # rest) s =
     (case createAdapter pe (length (adapterList s)) (normalise provider) of
        Inl error \<Rightarrow> (Some error, snd (register_all pe normalise rest s))
      | Inr adapter \<Rightarrow>
          register_all pe normalise rest
            (s\<lparr>adapters := (adapters s)(normalise provider \<mapsto> adapter),
               adapterList := adapterList s @ [adapter]\<rparr>))"

definition new_service :: state where
  "new_service = \<lparr>adapters = Map.empty, adapterList = [], currentAdapterIndex = 0, files = [],
     branches = [], calls = []\<rparr>"

definition initializeAdapters ::
  "process_env \<Rightarrow> (string \<Rightarrow> string) \<Rightarrow> state \<Rightarrow> thrown option \<times> state" where
  "initializeAdapters pe normalise s =
     (let enabledProviders =
            (case ENABLED_CLOUD_PROVIDERS pe of None \<Rightarrow> [] | Some v \<Rightarrow> split_on CHR '','' v)
      in if enabledProviders = []
         then (Some (StorageError ''No enabled cloud providers found in the configuration''
                       VALIDATION_FAILED None), s)
         else case register_all pe normalise enabledProviders s of
                (Some error, s') \<Rightarrow> (Some error, s')
              | (None, s') \<Rightarrow>
                  if adapterList s' = []
                  then (Some (StorageError ''No valid cloud storage adapters could be initialized''
                                VALIDATION_FAILED None), s')
                  else (None, s'))"

text \<open>The instances of a list carry their positions as numbers.\<close>

definition numbered :: "adapter list \<Rightarrow> bool" where
  "numbered xs = (map aid xs = [0..<length xs])"

definition aws_and_azure :: process_env where
  "aws_and_azure = \<lparr>ENABLED_CLOUD_PROVIDERS = Some ''aws,azure'', GCP_CREDENTIALS = None,
     GCP_BUCKET_NAME = None, AWS_REGION = Some ''ap-northeast-2'', AWS_BUCKET_NAME = Some ''photos'',
     AZURE_STORAGE_CONNECTION_STRING = Some ''UseDevelopmentStorage=true'',
     AZURE_CONTAINER_NAME = Some ''photos''\<rparr>"

section \<open>Properties: round robin and failover\<close>

lemma adapterList_getNextAdapter [simp]:
  "adapterList (snd (getNextAdapter s)) = adapterList s"
  by (simp add: getNextAdapter_def Let_def)

lemma adapterList_call_upload [simp]:
  "adapterList (snd (call_upload e a file s)) = adapterList s"
  by (simp add: call_upload_def)

section \<open>Properties of the failover loop\<close>

lemma has_method_Upload [simp]: "has_method a Upload"
  by (cases "cls a") (simp_all add: has_method_def)

lemma loop_step_fail:
  assumes "currentAdapterIndex s < length (adapterList s)"
    and "Suc i < length (adapterList s)"
    and "upload_result e (attempt s 0) file = Inl err"
  shows "uploadToStorage_loop e file i s = uploadToStorage_loop e file (Suc i) (after_attempts file 1 s)"
proof -
  have ne: "i \<noteq> length (adapterList s) - Suc 0" and lt: "i < length (adapterList s)"
    using assms(2) by arith+
  show ?thesis
    using assms(1,3) lt
    by (subst uploadToStorage_loop.simps)
       (simp add: ne getNextAdapter_def call_upload_def Let_def attempt_def after_attempts_def)
qed

lemma loop_step_last:
  assumes "currentAdapterIndex s < length (adapterList s)"
    and "Suc i = length (adapterList s)"
    and "upload_result e (attempt s 0) file = Inl err"
  shows "uploadToStorage_loop e file i s =
     (Inl (StorageError ''All storage adapters failed to upload the file'' UPLOAD_FAILED (Some err)),
      after_attempts file 1 s)"
  using assms
  by (subst uploadToStorage_loop.simps)
     (auto simp add: getNextAdapter_def call_upload_def Let_def attempt_def after_attempts_def)

lemma loop_step_ok:
  assumes "currentAdapterIndex s < length (adapterList s)"
    and "i < length (adapterList s)"
    and "upload_result e (attempt s 0) file = Inr r"
  shows "uploadToStorage_loop e file i s = (Inr (Some r), after_attempts file 1 s)"
  using assms
  by (subst uploadToStorage_loop.simps)
     (simp add: getNextAdapter_def call_upload_def Let_def attempt_def after_attempts_def)

lemma attempt_after [simp]:
  "attempt (after_attempts file n s) k = attempt s (n + k)"
  by (simp add: attempt_def after_attempts_def mod_add_left_eq add.assoc)

lemma upt_shift: "[n..<n + m] = map (\<lambda>j. n + j) [0..<m]"
  by (induction m) simp_all

lemma upt_split: "[0..<n + m] = [0..<n] @ map (\<lambda>j. n + j) [0..<m]"
proof -
  have "[0..<n + m] = [0..<n] @ [n..<n + m]"
    by (rule upt_add_eq_append) simp
  then show ?thesis by (simp only: upt_shift)
qed

lemma after_after [simp]:
  "after_attempts file m (after_attempts file n s) = after_attempts file (n + m) s"
proof -
  have c: "map (\<lambda>j. UploadCall (attempt s j) (originalname file)) [0..<n + m] =
        map (\<lambda>j. UploadCall (attempt s j) (originalname file)) [0..<n] @
        map (\<lambda>j. UploadCall (attempt s (n + j)) (originalname file)) [0..<m]"
    by (simp only: upt_split map_append map_map o_def)
  have i: "((currentAdapterIndex s + n) mod length (adapterList s) + m) mod length (adapterList s)
         = (currentAdapterIndex s + (n + m)) mod length (adapterList s)"
    by (simp only: mod_add_left_eq add.assoc)
  have "after_attempts file m (after_attempts file n s) =
      s\<lparr>currentAdapterIndex := ((currentAdapterIndex s + n) mod length (adapterList s) + m) mod length (adapterList s),
        calls := (calls s @ map (\<lambda>j. UploadCall (attempt s j) (originalname file)) [0..<n]) @
                 map (\<lambda>j. UploadCall (attempt s (n + j)) (originalname file)) [0..<m]\<rparr>"
    by (simp add: after_attempts_def attempt_def mod_add_left_eq add.assoc)
  also have "\<dots> = after_attempts file (n + m) s"
    by (simp only: after_attempts_def c i append_assoc)
  finally show ?thesis .
qed

lemma adapterList_after [simp]: "adapterList (after_attempts file n s) = adapterList s"
  by (simp add: after_attempts_def)

lemma cursor_after_lt:
  "adapterList s \<noteq> [] \<Longrightarrow> currentAdapterIndex (after_attempts file n s) < length (adapterList s)"
  by (simp add: after_attempts_def)

lemma loop_success:
  assumes "currentAdapterIndex s < length (adapterList s)"
    and "i + k < length (adapterList s)"
    and "\<forall>j<k. isl (upload_result e (attempt s j) file)"
    and "upload_result e (attempt s k) file = Inr r"
  shows "uploadToStorage_loop e file i s = (Inr (Some r), after_attempts file (Suc k) s)"
  using assms
proof (induction k arbitrary: i s)
  case 0
  then show ?case by (simp add: loop_step_ok)
next
  case (Suc k)
  from Suc.prems(3) have "isl (upload_result e (attempt s 0) file)" by blast
  then obtain err where err: "upload_result e (attempt s 0) file = Inl err"
    by (cases "upload_result e (attempt s 0) file") auto
  have ne: "adapterList s \<noteq> []" using Suc.prems(1) by auto
  have "uploadToStorage_loop e file i s = uploadToStorage_loop e file (Suc i) (after_attempts file 1 s)"
    using Suc.prems err by (intro loop_step_fail) auto
  also have "\<dots> = (Inr (Some r), after_attempts file (Suc k) (after_attempts file 1 s))"
  proof (rule Suc.IH)
    show "currentAdapterIndex (after_attempts file 1 s) < length (adapterList (after_attempts file 1 s))"
      using cursor_after_lt[OF ne] by simp
    show "Suc i + k < length (adapterList (after_attempts file 1 s))"
      using Suc.prems(2) by simp
    show "\<forall>j<k. isl (upload_result e (attempt (after_attempts file 1 s) j) file)"
      using Suc.prems(3) by simp
    show "upload_result e (attempt (after_attempts file 1 s) k) file = Inr r"
      using Suc.prems(4) by simp
  qed
  finally show ?case by simp
qed

lemma loop_all_fail:
  assumes "currentAdapterIndex s < length (adapterList s)"
    and "i + Suc k = length (adapterList s)"
    and "\<forall>j\<le>k. isl (upload_result e (attempt s j) file)"
  shows "uploadToStorage_loop e file i s =
     (Inl (StorageError ''All storage adapters failed to upload the file'' UPLOAD_FAILED
            (Some (projl (upload_result e (attempt s k) file)))),
      after_attempts file (Suc k) s)"
  using assms
proof (induction k arbitrary: i s)
  case 0
  then obtain err where err: "upload_result e (attempt s 0) file = Inl err"
    by (cases "upload_result e (attempt s 0) file") auto
  with 0 show ?case by (simp add: loop_step_last)
next
  case (Suc k)
  from Suc.prems(3) have "isl (upload_result e (attempt s 0) file)" by blast
  then obtain err where err: "upload_result e (attempt s 0) file = Inl err"
    by (cases "upload_result e (attempt s 0) file") auto
  have ne: "adapterList s \<noteq> []" using Suc.prems(1) by auto
  have "uploadToStorage_loop e file i s = uploadToStorage_loop e file (Suc i) (after_attempts file 1 s)"
    using Suc.prems err by (intro loop_step_fail) auto
  also have "\<dots> = (Inl (StorageError ''All storage adapters failed to upload the file'' UPLOAD_FAILED
            (Some (projl (upload_result e (attempt (after_attempts file 1 s) k) file)))),
        after_attempts file (Suc k) (after_attempts file 1 s))"
  proof (rule Suc.IH)
    show "currentAdapterIndex (after_attempts file 1 s) < length (adapterList (after_attempts file 1 s))"
      using cursor_after_lt[OF ne] by simp
    show "Suc i + Suc k = length (adapterList (after_attempts file 1 s))"
      using Suc.prems(2) by simp
    show "\<forall>j\<le>k. isl (upload_result e (attempt (after_attempts file 1 s) j) file)"
      using Suc.prems(3) by simp
  qed
  finally show ?case by simp
qed

lemma attempts_rotate:
  "map (attempt s) [0..<length (adapterList s)] = rotate (currentAdapterIndex s) (adapterList s)"
  by (rule nth_equalityI) (simp_all add: attempt_def nth_rotate)

lemma mod_hit:
  assumes "j < (N::nat)"
  shows "((x + (N - j)) mod N = 0) = (x mod N = j)"
proof -
  define r where "r = x mod N"
  have rN: "r < N" using assms by (simp add: r_def)
  have eq: "(x + (N - j)) mod N = (r + (N - j)) mod N"
    by (simp add: r_def mod_add_left_eq)
  consider "r = j" | "r < j" | "j < r" by arith
  then have "((r + (N - j)) mod N = 0) = (r = j)"
  proof cases
    case 1
    then show ?thesis using assms by simp
  next
    case 2
    then have "r + (N - j) < N" "0 < r + (N - j)" using assms by arith+
    then show ?thesis using 2 assms by simp
  next
    case 3
    then have e: "r + (N - j) = N + (r - j)" and l: "r - j < N" and p: "0 < r - j"
      using assms rN by arith+
    have "(r + (N - j)) mod N = r - j"
      unfolding e using l by (metis mod_add_self1 mod_less)
    then show ?thesis using 3 p by simp
  qed
  then show ?thesis by (simp add: eq r_def)
qed

lemma g_step:
  assumes "j < (N::nat)"
  shows "(Suc x + N - 1 - j) div N = (x + N - 1 - j) div N + (if x mod N = j then 1 else 0)"
proof -
  have e: "Suc x + N - 1 - j = Suc (x + N - 1 - j)" using assms by arith
  have m: "Suc (x + N - 1 - j) = x + (N - j)" using assms by arith
  have "Suc (x + N - 1 - j) div N =
        (if Suc (x + N - 1 - j) mod N = 0 then Suc ((x + N - 1 - j) div N) else (x + N - 1 - j) div N)"
    by (rule div_Suc)
  then show ?thesis unfolding e using mod_hit[OF assms, of x] by (simp only: m) simp
qed

lemma cnt_closed:
  "j < (N::nat) \<Longrightarrow> length (filter (\<lambda>i. (c + i) mod N = j) [0..<K]) + (c + N - 1 - j) div N = (c + K + N - 1 - j) div N"
proof (induction K)
  case 0
  then show ?case by simp
next
  case (Suc K)
  have "c + Suc K + N - 1 - j = Suc (c + K) + N - 1 - j" by simp
  then show ?case using Suc g_step[OF Suc.prems, of "c + K"] by simp
qed

lemma div_add_bounds:
  assumes "0 < (N::nat)"
  shows "(A + K) div N = A div N + K div N \<or> (K mod N \<noteq> 0 \<and> (A + K) div N = A div N + K div N + 1)"
proof -
  have d: "(A + K) div N = A div N + K div N + (A mod N + K mod N) div N"
    by (rule div_add1_eq)
  have "A mod N < N" "K mod N < N" using assms by simp_all
  then have lt: "A mod N + K mod N < 2 * N" by arith
  show ?thesis
  proof (cases "A mod N + K mod N < N")
    case True
    then show ?thesis using d by simp
  next
    case False
    then have "(A mod N + K mod N) div N = 1"
      using lt by (intro Euclidean_Rings.div_nat_eqI) simp_all
    moreover have "K mod N \<noteq> 0" using False \<open>A mod N < N\<close> by auto
    ultimately show ?thesis using d by simp
  qed
qed

lemma ceil_div:
  assumes "0 < (N::nat)"
  shows "(K + N - 1) div N = K div N + (if K mod N = 0 then 0 else 1)"
proof -
  have K: "K = N * (K div N) + K mod N" by simp
  have r: "K mod N < N" using assms by simp
  show ?thesis
  proof (cases "K mod N = 0")
    case True
    have "(K + N - 1) div N = K div N"
    proof (rule Euclidean_Rings.div_nat_eqI)
      show "N * (K div N) \<le> K + N - 1" using K assms by arith
      show "K + N - 1 < N * Suc (K div N)" using K True assms by (simp add: algebra_simps) 
    qed
    then show ?thesis using True by simp
  next
    case False
    have "(K + N - 1) div N = Suc (K div N)"
    proof (rule Euclidean_Rings.div_nat_eqI)
      have "N * Suc (K div N) = N * (K div N) + N" by simp
      also have "\<dots> \<le> N * (K div N) + K mod N + N - 1" using False by arith
      also have "\<dots> = K + N - 1" using K by simp
      finally show "N * Suc (K div N) \<le> K + N - 1" .
      have "K + N - 1 = N * (K div N) + K mod N + N - 1" using K by simp
      also have "\<dots> < N * (K div N) + N + N" using r assms by arith
      also have "\<dots> = N * Suc (Suc (K div N))" by simp
      finally show "K + N - 1 < N * Suc (Suc (K div N))" .
    qed
    then show ?thesis using False by simp
  qed
qed

lemma round_robin_count:
  assumes "j < (N::nat)"
  shows "length (filter (\<lambda>i. (c + i) mod N = j) [0..<K]) = K div N \<or>
         length (filter (\<lambda>i. (c + i) mod N = j) [0..<K]) = (K + N - 1) div N"
proof -
  have N: "0 < N" using assms by simp
  let ?n = "length (filter (\<lambda>i. (c + i) mod N = j) [0..<K])"
  let ?A = "c + N - 1 - j"
  have "c + K + N - 1 - j = ?A + K" using assms by arith
  then have c: "?n + ?A div N = (?A + K) div N" using cnt_closed[OF assms, of c K] by simp
  from div_add_bounds[OF N, of ?A K] show ?thesis
  proof
    assume "(?A + K) div N = ?A div N + K div N"
    then show ?thesis using c by simp
  next
    assume "K mod N \<noteq> 0 \<and> (?A + K) div N = ?A div N + K div N + 1"
    then show ?thesis using c ceil_div[OF N, of K] by simp
  qed
qed

lemma attempted_after [simp]:
  "attempted s (after_attempts file n s) = map (attempt s) [0..<n]"
  by (simp add: attempted_def after_attempts_def o_def)

lemma uploadToStorage_all_fail:
  assumes "adapterList s \<noteq> []" and "currentAdapterIndex s < length (adapterList s)"
    and "\<forall>a \<in> set (adapterList s). isl (upload_result e a file)"
  shows "uploadToStorage e file s =
     (Inl (StorageError ''All storage adapters failed to upload the file'' UPLOAD_FAILED
            (Some (projl (upload_result e (last (rotate (currentAdapterIndex s) (adapterList s))) file)))),
      after_attempts file (length (adapterList s)) s)"
proof -
  let ?N = "length (adapterList s)"
  have N: "0 + Suc (?N - 1) = ?N" using assms(1) by simp
  have f: "\<forall>j\<le>?N - 1. isl (upload_result e (attempt s j) file)"
    using assms by (simp add: attempt_def)
  have "last (rotate (currentAdapterIndex s) (adapterList s)) = attempt s (?N - 1)"
    using assms(1) by (simp add: attempts_rotate[symmetric] last_map)
  then show ?thesis
    unfolding uploadToStorage_def
    using loop_all_fail[OF assms(2) N f] assms(1) by simp
qed

lemma uploadToStorage_first_success:
  assumes "adapterList s \<noteq> []" and "currentAdapterIndex s < length (adapterList s)"
    and "\<exists>a \<in> set (adapterList s). \<not> isl (upload_result e a file)"
  defines "order \<equiv> rotate (currentAdapterIndex s) (adapterList s)"
  defines "k \<equiv> length (takeWhile (\<lambda>a. isl (upload_result e a file)) order)"
  shows "uploadToStorage e file s =
     (Inr (Some (projr (upload_result e (hd (dropWhile (\<lambda>a. isl (upload_result e a file)) order)) file))),
      after_attempts file (Suc k) s)"
    and "map (attempt s) [0..<Suc k] =
      takeWhile (\<lambda>a. isl (upload_result e a file)) order @
      [hd (dropWhile (\<lambda>a. isl (upload_result e a file)) order)]"
    and "k < length (adapterList s)"
proof -
  let ?P = "\<lambda>a. isl (upload_result e a file)"
  let ?N = "length (adapterList s)"
  have len: "length order = ?N" by (simp add: order_def)
  have ord: "order = map (attempt s) [0..<?N]" by (simp add: order_def attempts_rotate)
  have "\<exists>a \<in> set order. \<not> ?P a" using assms(3) by (simp add: order_def)
  then have "takeWhile ?P order \<noteq> order" by (metis set_takeWhileD)
  then have "k \<noteq> length order"
    unfolding k_def by (metis takeWhile_eq_take take_all_iff order_refl)
  moreover have "k \<le> length order" unfolding k_def by (rule length_takeWhile_le)
  ultimately show kN: "k < ?N" using len by simp
  have nth: "\<And>j. j < ?N \<Longrightarrow> order ! j = attempt s j" by (simp add: ord)
  have pre: "\<forall>j<k. ?P (attempt s j)"
  proof (intro allI impI)
    fix j assume "j < k"
    then have "?P (order ! j)" unfolding k_def by (metis nth_mem set_takeWhileD takeWhile_nth length_takeWhile_le less_le_trans)
    then show "?P (attempt s j)" using nth[of j] \<open>j < k\<close> kN by simp
  qed
  have "\<not> ?P (order ! k)" using kN len unfolding k_def by (intro nth_length_takeWhile) simp
  then have notP: "\<not> ?P (attempt s k)" using nth[OF kN] by simp
  have hd: "hd (dropWhile ?P order) = attempt s k"
    using kN len nth[OF kN] unfolding k_def
    by (simp add: dropWhile_eq_drop hd_drop_conv_nth)
  obtain r where r: "upload_result e (attempt s k) file = Inr r"
    using notP by (cases "upload_result e (attempt s k) file") auto
  have "0 + k < ?N" using kN by simp
  from loop_success[OF assms(2) this pre r]
  show "uploadToStorage e file s =
     (Inr (Some (projr (upload_result e (hd (dropWhile ?P order)) file))), after_attempts file (Suc k) s)"
    unfolding uploadToStorage_def by (simp add: hd r)
  have "takeWhile ?P order = take k order" unfolding k_def by (rule takeWhile_eq_take)
  also have "\<dots> = map (attempt s) [0..<k]" using kN by (simp add: ord take_map)
  finally show "map (attempt s) [0..<Suc k] = takeWhile ?P order @ [hd (dropWhile ?P order)]"
    by (simp add: hd)
qed

lemma mset_rotate_eq: "mset (rotate n xs) = mset xs"
proof -
  have "mset (rotate n xs) = mset (drop (n mod length xs) xs) + mset (take (n mod length xs) xs)"
    by (simp add: rotate_drop_take)
  also have "\<dots> = mset (take (n mod length xs) xs @ drop (n mod length xs) xs)"
    by (simp only: mset_append add.commute)
  finally show ?thesis by (simp only: append_take_drop_id)
qed

section \<open>Properties: failover\<close>

text \<open>
  Claim C5. When the adapter list is not empty and the cursor is in range: if the upload
  of every adapter fails, \<^verbatim>\<open>uploadToStorage\<close> invokes the adapters in the order of the list
  rotated to the cursor, each exactly once (the adapters invoked are, as a multiset, the
  adapter list), and throws \<open>UPLOAD_FAILED\<close> whose details are the error of the last adapter
  tried; if some adapter succeeds, the adapters invoked are those that fail before the
  first success followed by the first successful one, whose result is returned.
\<close>

theorem uploadToStorage_failover:
  assumes "adapterList s \<noteq> []" and "currentAdapterIndex s < length (adapterList s)"
  shows
   "(let order = rotate (currentAdapterIndex s) (adapterList s);
         failing = (\<lambda>a. isl (upload_result e a file));
         r = uploadToStorage e file s
     in ((\<forall>a \<in> set (adapterList s). failing a) \<longrightarrow>
           fst r = Inl (StorageError ''All storage adapters failed to upload the file'' UPLOAD_FAILED
                         (Some (projl (upload_result e (last order) file))))
           \<and> attempted s (snd r) = order
           \<and> mset (attempted s (snd r)) = mset (adapterList s)
           \<and> length (attempted s (snd r)) = length (adapterList s))
       \<and> ((\<exists>a \<in> set (adapterList s). \<not> failing a) \<longrightarrow>
           fst r = Inr (Some (projr (upload_result e (hd (dropWhile failing order)) file)))
           \<and> attempted s (snd r) = takeWhile failing order @ [hd (dropWhile failing order)]))"
proof -
  have A: "(\<forall>a \<in> set (adapterList s). isl (upload_result e a file)) \<Longrightarrow> ?thesis"
    using uploadToStorage_all_fail[OF assms] by (auto simp add: Let_def attempts_rotate mset_rotate_eq)
  have B: "(\<exists>a \<in> set (adapterList s). \<not> isl (upload_result e a file)) \<Longrightarrow> ?thesis"
    using uploadToStorage_first_success(1,2)[OF assms]
    by (auto simp add: Let_def)
  show ?thesis using A B by blast
qed

theorem uploadToStorage_failover_witness:
  "adapterList two_adapters \<noteq> [] \<and> currentAdapterIndex two_adapters < length (adapterList two_adapters)
   \<and> fst (uploadToStorage all_down photo two_adapters) =
       Inl (StorageError ''All storage adapters failed to upload the file'' UPLOAD_FAILED (Some (provider_down aws0)))
   \<and> attempted two_adapters (snd (uploadToStorage all_down photo two_adapters)) = [azure1, aws0]"
  using uploadToStorage_failover [of two_adapters all_down photo]
  by (simp add: two_adapters_def all_down_def Let_def)

section \<open>Properties: round-robin fairness\<close>

lemma uploadToStorage_consumes:
  assumes "adapterList s \<noteq> []" and "currentAdapterIndex s < length (adapterList s)"
  shows "\<exists>n>0. snd (uploadToStorage e file s) = after_attempts file n s"
proof (cases "\<forall>a \<in> set (adapterList s). isl (upload_result e a file)")
  case True
  from uploadToStorage_all_fail[OF assms True]
  have "snd (uploadToStorage e file s) = after_attempts file (length (adapterList s)) s" by simp
  moreover have "0 < length (adapterList s)" using assms(1) by simp
  ultimately show ?thesis by blast
next
  case False
  then have ex: "\<exists>a \<in> set (adapterList s). \<not> isl (upload_result e a file)" by blast
  from uploadToStorage_first_success(1)[OF assms ex]
  show ?thesis by (metis snd_conv zero_less_Suc)
qed

lemma cursor_after [simp]:
  "currentAdapterIndex (after_attempts file n s) = (currentAdapterIndex s + n) mod length (adapterList s)"
  by (simp add: after_attempts_def)

lemma upload_sequence_all_ok:
  assumes "adapterList s \<noteq> []" and "currentAdapterIndex s < length (adapterList s)"
    and "\<forall>u \<in> set us. \<forall>a \<in> set (adapterList s). \<not> isl (upload_result (fst u) a (snd u))"
  shows "adapterList (upload_sequence us s) = adapterList s
       \<and> currentAdapterIndex (upload_sequence us s) = (currentAdapterIndex s + length us) mod length (adapterList s)
       \<and> map call_adapter (calls (upload_sequence us s)) =
           map call_adapter (calls s) @ map (attempt s) [0..<length us]"
  using assms
proof (induction us arbitrary: s)
  case Nil
  then show ?case by simp
next
  case (Cons u us)
  let ?s1 = "after_attempts (snd u) 1 s"
  have lt: "0 + 0 < length (adapterList s)" using Cons.prems(1) by simp
  have a0: "attempt s 0 \<in> set (adapterList s)" using Cons.prems(2) by (simp add: attempt_def)
  then have "\<not> isl (upload_result (fst u) (attempt s 0) (snd u))" using Cons.prems(3) by simp
  then obtain r where r: "upload_result (fst u) (attempt s 0) (snd u) = Inr r"
    by (cases "upload_result (fst u) (attempt s 0) (snd u)") auto
  have "uploadToStorage (fst u) (snd u) s = (Inr (Some r), ?s1)"
    unfolding uploadToStorage_def
    using loop_success[OF Cons.prems(2) lt _ r] by simp
  then have step: "upload_sequence (u # us) s = upload_sequence us ?s1" by simp
  have IH: "adapterList (upload_sequence us ?s1) = adapterList ?s1
       \<and> currentAdapterIndex (upload_sequence us ?s1) = (currentAdapterIndex ?s1 + length us) mod length (adapterList ?s1)
       \<and> map call_adapter (calls (upload_sequence us ?s1)) =
           map call_adapter (calls ?s1) @ map (attempt ?s1) [0..<length us]"
  proof (rule Cons.IH)
    show "adapterList ?s1 \<noteq> []" using Cons.prems(1) by simp
    show "currentAdapterIndex ?s1 < length (adapterList ?s1)" using Cons.prems(1) by simp
    show "\<forall>u \<in> set us. \<forall>a \<in> set (adapterList ?s1). \<not> isl (upload_result (fst u) a (snd u))"
      using Cons.prems(3) by simp
  qed
  have c1: "map call_adapter (calls ?s1) = map call_adapter (calls s) @ [attempt s 0]"
    by (simp add: after_attempts_def)
  have "[0..<Suc (length us)] = 0 # [Suc 0..<Suc (length us)]"
    by (rule upt_conv_Cons) simp
  then have "[0..<Suc (length us)] = 0 # map Suc [0..<length us]"
    by (simp only: map_Suc_upt)
  then have sh: "map (attempt s) [0..<Suc (length us)] = attempt s 0 # map (\<lambda>j. attempt s (1 + j)) [0..<length us]"
    by (simp only: list.map map_map o_def plus_1_eq_Suc)
  have m: "((currentAdapterIndex s + 1) mod length (adapterList s) + length us) mod length (adapterList s)
        = (currentAdapterIndex s + Suc (length us)) mod length (adapterList s)"
    by (simp add: mod_add_left_eq)
  show ?case
    unfolding step using IH c1 sh m by simp
qed

text \<open>
  Claim C6. With a non-empty list of distinct adapters and the cursor in range:
  \<^verbatim>\<open>getNextAdapter\<close> returns the adapter under the cursor and advances the cursor by one
  modulo the length of the list; one call of \<^verbatim>\<open>uploadToStorage\<close> moves the cursor forward
  by exactly the number of adapters it tried, whether they failed or not; and over K
  consecutive uploads in which no adapter fails, the adapters used are those at the
  positions cursor, cursor + 1, ... (modulo the length), each adapter being used
  either floor(K/N) or ceil(K/N) times.
\<close>

theorem round_robin_fairness:
  assumes "adapterList s \<noteq> []" and "currentAdapterIndex s < length (adapterList s)"
    and "distinct (adapterList s)"
  shows "getNextAdapter s =
           (Some (adapterList s ! currentAdapterIndex s),
            s\<lparr>currentAdapterIndex := (currentAdapterIndex s + 1) mod length (adapterList s)\<rparr>)
       \<and> 0 < length (attempted s (snd (uploadToStorage e file s)))
       \<and> currentAdapterIndex (snd (uploadToStorage e file s)) =
           (currentAdapterIndex s + length (attempted s (snd (uploadToStorage e file s))))
             mod length (adapterList s)
       \<and> ((\<forall>u \<in> set us. \<forall>a \<in> set (adapterList s). \<not> isl (upload_result (fst u) a (snd u))) \<longrightarrow>
            attempted s (upload_sequence us s) =
              map (\<lambda>i. adapterList s ! ((currentAdapterIndex s + i) mod length (adapterList s)))
                [0..<length us]
            \<and> (\<forall>a \<in> set (adapterList s).
                  count_list (attempted s (upload_sequence us s)) a = length us div length (adapterList s)
                \<or> count_list (attempted s (upload_sequence us s)) a =
                    (length us + length (adapterList s) - 1) div length (adapterList s)))"
proof (intro conjI impI)
  show "getNextAdapter s =
           (Some (adapterList s ! currentAdapterIndex s),
            s\<lparr>currentAdapterIndex := (currentAdapterIndex s + 1) mod length (adapterList s)\<rparr>)"
    using assms(2) by (simp add: getNextAdapter_def)
next
  obtain n where n: "0 < n" "snd (uploadToStorage e file s) = after_attempts file n s"
    using uploadToStorage_consumes[OF assms(1,2)] by blast
  show "0 < length (attempted s (snd (uploadToStorage e file s)))"
    using n by simp
  show "currentAdapterIndex (snd (uploadToStorage e file s)) =
           (currentAdapterIndex s + length (attempted s (snd (uploadToStorage e file s))))
             mod length (adapterList s)"
    using n by simp
next
  assume ok: "\<forall>u \<in> set us. \<forall>a \<in> set (adapterList s). \<not> isl (upload_result (fst u) a (snd u))"
  let ?N = "length (adapterList s)"
  let ?c = "currentAdapterIndex s"
  from upload_sequence_all_ok[OF assms(1,2) ok]
  have cs: "map call_adapter (calls (upload_sequence us s)) =
           map call_adapter (calls s) @ map (attempt s) [0..<length us]" by blast
  have "attempted s (upload_sequence us s) =
        drop (length (map call_adapter (calls s))) (map call_adapter (calls (upload_sequence us s)))"
    by (simp add: attempted_def drop_map)
  also have "\<dots> = map (attempt s) [0..<length us]"
    unfolding cs by simp
  finally have att: "attempted s (upload_sequence us s) = map (attempt s) [0..<length us]" .
  then show "attempted s (upload_sequence us s) =
      map (\<lambda>i. adapterList s ! ((?c + i) mod ?N)) [0..<length us]"
    by (simp add: attempt_def)
  show "\<forall>a \<in> set (adapterList s).
                  count_list (attempted s (upload_sequence us s)) a = length us div ?N
                \<or> count_list (attempted s (upload_sequence us s)) a = (length us + ?N - 1) div ?N"
  proof
    fix a assume "a \<in> set (adapterList s)"
    then obtain j where j: "j < ?N" "a = adapterList s ! j" by (metis in_set_conv_nth)
    have "\<And>i. (adapterList s ! j = adapterList s ! ((?c + i) mod ?N)) = (j = (?c + i) mod ?N)"
      using j(1) assms(1,3) by (intro nth_eq_iff_index_eq) simp_all
    then have eq: "\<And>i. (a = attempt s i) = ((?c + i) mod ?N = j)"
      unfolding attempt_def j(2) by (metis (no_types))
    have "count_list (map (attempt s) [0..<length us]) a =
          length (filter (\<lambda>i. a = attempt s i) [0..<length us])"
      by (simp only: count_list_eq_length_filter length_filter_map o_def)
    also have "\<dots> = length (filter (\<lambda>i. (?c + i) mod ?N = j) [0..<length us])"
      by (simp only: eq)
    finally show "count_list (attempted s (upload_sequence us s)) a = length us div ?N
                \<or> count_list (attempted s (upload_sequence us s)) a = (length us + ?N - 1) div ?N"
      unfolding att using round_robin_count[OF j(1), of ?c "length us"] by simp
  qed
qed

theorem round_robin_fairness_witness:
  "adapterList two_adapters \<noteq> [] \<and> currentAdapterIndex two_adapters < length (adapterList two_adapters)
   \<and> distinct (adapterList two_adapters)
   \<and> attempted two_adapters
        (upload_sequence [(all_up, photo), (all_up, photo), (all_up, photo)] two_adapters) =
       [azure1, aws0, azure1]
   \<and> fst (getNextAdapter two_adapters) = Some azure1"
proof -
  let ?us = "[(all_up, photo), (all_up, photo), (all_up, photo)]"
  have h1: "adapterList two_adapters \<noteq> []" by (simp add: two_adapters_def)
  have h2: "currentAdapterIndex two_adapters < length (adapterList two_adapters)"
    by (simp add: two_adapters_def)
  have h3: "distinct (adapterList two_adapters)"
    by (simp add: two_adapters_def aws0_def azure1_def)
  have ok: "\<forall>u \<in> set ?us. \<forall>a \<in> set (adapterList two_adapters).
              \<not> isl (upload_result (fst u) a (snd u))"
    by (simp add: all_up_def)
  note T = round_robin_fairness [OF h1 h2 h3, of all_up photo ?us]
  have m: "map (\<lambda>i. adapterList two_adapters !
            ((currentAdapterIndex two_adapters + i) mod length (adapterList two_adapters)))
        [0..<length ?us] = [azure1, aws0, azure1]"
    by (simp add: two_adapters_def upt_rec mod_Suc)
  from T ok have "attempted two_adapters (upload_sequence ?us two_adapters) =
      map (\<lambda>i. adapterList two_adapters !
            ((currentAdapterIndex two_adapters + i) mod length (adapterList two_adapters)))
        [0..<length ?us]"
    by blast
  then have a: "attempted two_adapters (upload_sequence ?us two_adapters) = [azure1, aws0, azure1]"
    by (simp only: m)
  from T have "fst (getNextAdapter two_adapters) =
      Some (adapterList two_adapters ! currentAdapterIndex two_adapters)"
    by simp
  then have g: "fst (getNextAdapter two_adapters) = Some azure1"
    by (simp add: two_adapters_def)
  show ?thesis using h1 h2 h3 a g by blast
qed

section \<open>Properties: the upload transaction\<close>

lemma uploadToStorage_first_ok:
  assumes "currentAdapterIndex s < length (adapterList s)"
    and "upload_result e (adapterList s ! currentAdapterIndex s) file = Inr r"
  shows "uploadToStorage e file s = (Inr (Some r), after_attempts file 1 s)"
proof -
  have lt: "0 + 0 < length (adapterList s)" using assms(1) by linarith
  have r: "upload_result e (attempt s 0) file = Inr r"
    using assms by (auto simp add: attempt_def)
  show ?thesis
    unfolding uploadToStorage_def using loop_success[OF assms(1) lt _ r] by simp
qed

lemma files_after [simp]: "files (after_attempts file n s) = files s"
  by (simp add: after_attempts_def)

text \<open>
  Claim C1, evaluated where the code departs from it. The upload to the provider
  succeeds and the File row is created, then creating the StorageInfo row fails: the
  call fails with \<open>DATABASE_ERROR\<close>, and the metadata store, empty before the call, now
  holds the File row without a StorageInfo. \<^verbatim>\<open>createFileRecord\<close> writes through
  \<^verbatim>\<open>this.prisma\<close>, outside the transaction that \<^verbatim>\<open>uploadFile\<close> opens.
\<close>

theorem uploadFile_leaves_file_row:
  "files two_adapters = []
   \<and> fst (uploadFile info_create_fails upload_request photo two_adapters) =
       Inl (upload_transaction_failed prisma_error)
   \<and> map f_id (files (snd (uploadFile info_create_fails upload_request photo two_adapters))) = [''f1'']
   \<and> map f_storageInfo (files (snd (uploadFile info_create_fails upload_request photo two_adapters)))
       = [None]"
proof -
  have c: "currentAdapterIndex two_adapters < length (adapterList two_adapters)"
    by (simp add: two_adapters_def)
  have r: "upload_result info_create_fails (adapterList two_adapters ! currentAdapterIndex two_adapters) photo
           = Inr (stored_by azure1 photo)"
    by (simp add: info_create_fails_def all_up_def two_adapters_def)
  have u: "uploadToStorage info_create_fails photo two_adapters =
           (Inr (Some (stored_by azure1 photo)), after_attempts photo 1 two_adapters)"
    by (rule uploadToStorage_first_ok[OF c r])
  have f: "files two_adapters = []" by (simp add: two_adapters_def)
  have d: "db_fails info_create_fails StorageInfoCreate" "\<not> db_fails info_create_fails FileCreate"
    and i: "fresh_file_id info_create_fails = ''f1''"
    by (simp_all add: info_create_fails_def all_up_def)
  show ?thesis
    by (simp add: uploadFile_def transaction_def uploadFile_callback_def u createFileRecord_def
          f d i Let_def)
qed

text \<open>
  Claim C2, evaluated where the code departs from it. Both adapters fail: no row is
  written, but the error \<^verbatim>\<open>uploadFile\<close> throws carries the code \<open>DATABASE_ERROR\<close>; the
  \<open>UPLOAD_FAILED\<close> error of \<^verbatim>\<open>uploadToStorage\<close> is only its details.
\<close>

theorem uploadFile_relabels_upload_failure:
  "fst (uploadFile all_down upload_request photo two_adapters) =
     Inl (StorageError ''Failed to complete file upload transaction'' DATABASE_ERROR
            (Some (StorageError ''All storage adapters failed to upload the file'' UPLOAD_FAILED
                     (Some (provider_down aws0)))))
   \<and> files (snd (uploadFile all_down upload_request photo two_adapters)) = files two_adapters"
proof -
  have h1: "adapterList two_adapters \<noteq> []" by (simp add: two_adapters_def)
  have h2: "currentAdapterIndex two_adapters < length (adapterList two_adapters)"
    by (simp add: two_adapters_def)
  have h3: "\<forall>a \<in> set (adapterList two_adapters). isl (upload_result all_down a photo)"
    by (simp add: all_down_def)
  have l: "last (rotate (currentAdapterIndex two_adapters) (adapterList two_adapters)) = aws0"
    by (simp add: two_adapters_def)
  have p: "projl (upload_result all_down aws0 photo) = provider_down aws0"
    by (simp add: all_down_def)
  note u = uploadToStorage_all_fail[OF h1 h2 h3, unfolded l p]
  show ?thesis
    by (simp add: uploadFile_def transaction_def uploadFile_callback_def u
          upload_transaction_failed_def)
qed

section \<open>Properties: dispatch of downloads and deletes\<close>

lemma library_fields:
  "adapters library = [''aws'' \<mapsto> aws0, ''azure'' \<mapsto> azure1]"
  "calls library = []"
  "files library = [file_on ''f1'' ''google'', file_on ''f2'' ''azure'']"
  "branches library = [\<lparr>b_id = ''b1'', b_name = ''seoul''\<rparr>]"
  by (simp_all add: library_def two_adapters_def)

lemma file_on_fields [simp]:
  "f_id (file_on i tag) = i"
  "f_storageInfo (file_on i tag) = Some (info_on i tag)"
  "f_accessCount (file_on i tag) = 0"
  "f_deletedAt (file_on i tag) = None"
  "f_name (file_on i tag) = ''2024_3_seoul_a.jpg''"
  "f_mimeType (file_on i tag) = ''image/jpeg''"
  "si_storageType (info_on i tag) = Some tag"
  "si_storageFileId (info_on i tag) = ''2024_3_seoul_a.jpg''"
  by (simp_all add: file_on_def info_on_def)

lemma all_up_fields [simp]:
  "db_fails all_up c = False"
  "download_result all_up a k = Inr ''bytes''"
  "delete_result all_up a k = None"
  by (simp_all add: all_up_def)

text \<open>
  Claim C3, evaluated where the code departs from it. \<^verbatim>\<open>download\<close> is an operation of
  the interface, but the classes \<^verbatim>\<open>AwsS3Adapter\<close> and \<^verbatim>\<open>GoogleCloudStorageAdapter\<close> define
  no such method. A download through the adapter registered as \<open>aws\<close> therefore increments
  the access counter, reaches no provider, and fails with \<open>DOWNLOAD_FAILED\<close> whose details
  are the \<^verbatim>\<open>TypeError\<close> of calling a method that is absent.
\<close>

theorem aws_adapter_has_no_download:
  "Download \<in> set CloudStorageAdapter
   \<and> Download \<notin> set (class_methods AwsS3Adapter)
   \<and> Download \<notin> set (class_methods GoogleCloudStorageAdapter)
   \<and> fst (downloadFile all_up ''f1'' ''aws'' library) = Inl (download_failed not_a_function)
   \<and> calls (snd (downloadFile all_up ''f1'' ''aws'' library)) = []
   \<and> map f_accessCount (files (snd (downloadFile all_up ''f1'' ''aws'' library))) = [1, 0]"
  by (simp add: CloudStorageAdapter_def downloadFile_def library_fields has_method_def aws0_def
        increment_access_def Let_def)

lemma attempted_same [simp]: "attempted s s = []"
  by (simp add: attempted_def)

lemma attempted_files_update [simp]: "attempted s (s'\<lparr>files := x\<rparr>) = attempted s s'"
  by (simp add: attempted_def)

lemma attempted_one [simp]:
  "attempted s (s\<lparr>calls := calls s @ [c]\<rparr>) = [call_adapter c]"
  by (simp add: attempted_def)

lemma attempted_one_files [simp]:
  "attempted s (s\<lparr>files := x, calls := calls s @ [c]\<rparr>) = [call_adapter c]"
  by (simp add: attempted_def)


lemma downloadFile_no_adapter:
  assumes "\<not> db_fails e FileFindFirst" and "has_storage s i" and "adapters s tag = None"
  shows "downloadFile e i tag s =
     (Inl (StorageError (''Storage provider not available for type: '' @ tag) VALIDATION_FAILED None), s)"
  using assms by (auto simp add: downloadFile_def has_storage_def split: option.splits)


lemma files_delete_from_storage [simp]: "files (delete_from_storage e f s) = files s"
  by (simp add: delete_from_storage_def call_delete_def split: option.splits)







lemma find_increment_access:
  "find (\<lambda>f. f_id f = i) (increment_access j rows) =
     map_option (\<lambda>f. if f_id f = j then f\<lparr>f_accessCount := f_accessCount f + 1\<rparr> else f)
       (find (\<lambda>f. f_id f = i) rows)"
  by (induction rows) (simp_all add: increment_access_def)

lemma accessCount_of_increment:
  "accessCount_of (s\<lparr>files := increment_access i (files s)\<rparr>) i =
     map_option (\<lambda>n. n + 1) (accessCount_of s i)"
proof (cases "find (\<lambda>f. f_id f = i) (files s)")
  case None
  then show ?thesis by (simp add: accessCount_of_def find_increment_access)
next
  case (Some f)
  then have "f_id f = i" by (auto simp: find_Some_iff)
  then show ?thesis by (simp add: accessCount_of_def find_increment_access Some)
qed

lemma accessCount_of_calls [simp]:
  "accessCount_of (s\<lparr>calls := c\<rparr>) i = accessCount_of s i"
  by (simp add: accessCount_of_def)

lemma downloadFile_not_found:
  assumes "\<not> db_fails e FileFindFirst" and "\<not> has_storage s i"
  shows "downloadFile e i tag s = (Inl (StorageError ''File not found'' FILE_NOT_FOUND None), s)"
  using assms by (auto simp add: downloadFile_def has_storage_def split: option.splits)

lemma downloadFile_adapter_found:
  assumes "\<not> db_fails e FileFindFirst" and "\<not> db_fails e FileUpdate"
    and "find (\<lambda>f. f_id f = i) (files s) = Some f" and "f_storageInfo f = Some info"
    and "adapters s tag = Some a"
  shows "files (snd (downloadFile e i tag s)) = increment_access i (files s)"
    and "accessCount_of (snd (downloadFile e i tag s)) i = map_option (\<lambda>n. n + 1) (accessCount_of s i)"
    and "\<not> has_method a Download \<or> isl (download_result e a (si_storageFileId info)) \<Longrightarrow>
           \<exists>error. fst (downloadFile e i tag s) = Inl (download_failed error)"
    and "has_method a Download \<Longrightarrow> download_result e a (si_storageFileId info) = Inr stream \<Longrightarrow>
           fst (downloadFile e i tag s) =
             Inr \<lparr>dl_stream = stream, dl_filename = f_name f, dl_mimetype = f_mimeType f\<rparr>"
proof -
  let ?s1 = "s\<lparr>files := increment_access i (files s)\<rparr>"
  have d: "downloadFile e i tag s =
     (if \<not> has_method a Download then (Inl (download_failed not_a_function), ?s1)
      else case download_result e a (si_storageFileId info) of
             Inl error \<Rightarrow> (Inl (download_failed error),
                             ?s1\<lparr>calls := calls ?s1 @ [DownloadCall a (si_storageFileId info)]\<rparr>)
           | Inr stream \<Rightarrow>
               (Inr \<lparr>dl_stream = stream, dl_filename = f_name f, dl_mimetype = f_mimeType f\<rparr>,
                ?s1\<lparr>calls := calls ?s1 @ [DownloadCall a (si_storageFileId info)]\<rparr>))"
    using assms by (simp add: downloadFile_def Let_def split: sum.splits)
  show "files (snd (downloadFile e i tag s)) = increment_access i (files s)"
    unfolding d by (simp split: sum.splits)
  show "accessCount_of (snd (downloadFile e i tag s)) i = map_option (\<lambda>n. n + 1) (accessCount_of s i)"
    unfolding d by (simp add: accessCount_of_increment split: sum.splits)
  show "\<not> has_method a Download \<or> isl (download_result e a (si_storageFileId info)) \<Longrightarrow>
           \<exists>error. fst (downloadFile e i tag s) = Inl (download_failed error)"
    unfolding d by (auto split: sum.splits)
  show "has_method a Download \<Longrightarrow> download_result e a (si_storageFileId info) = Inr stream \<Longrightarrow>
           fst (downloadFile e i tag s) =
             Inr \<lparr>dl_stream = stream, dl_filename = f_name f, dl_mimetype = f_mimeType f\<rparr>"
    unfolding d by simp
qed

lemma has_storage_iff:
  "has_storage s i = (\<exists>f info. find (\<lambda>f. f_id f = i) (files s) = Some f \<and> f_storageInfo f = Some info)"
  by (auto simp add: has_storage_def split: option.splits)

text \<open>
  Claim C8. When the lookup and the counter update themselves do not fault,
  \<^verbatim>\<open>downloadFile\<close> increments the access counter of the file by one exactly when the file
  with its StorageInfo and the adapter are both found, and otherwise leaves the state as
  it was; with the adapter missing the call fails with \<open>VALIDATION_FAILED\<close>; and when the
  adapter is found but \<^verbatim>\<open>adapter.download\<close> throws, the call fails with \<open>DOWNLOAD_FAILED\<close>
  and the counter is incremented all the same.
\<close>

theorem access_counter_increment:
  assumes "\<not> db_fails e FileFindFirst" and "\<not> db_fails e FileUpdate"
  shows
   "(has_storage s i \<and> adapters s tag \<noteq> None \<longrightarrow>
       accessCount_of (snd (downloadFile e i tag s)) i = map_option (\<lambda>n. n + 1) (accessCount_of s i)
       \<and> accessCount_of s i \<noteq> None
       \<and> files (snd (downloadFile e i tag s)) = increment_access i (files s))
    \<and> (\<not> (has_storage s i \<and> adapters s tag \<noteq> None) \<longrightarrow> snd (downloadFile e i tag s) = s)
    \<and> (has_storage s i \<and> adapters s tag = None \<longrightarrow>
         fst (downloadFile e i tag s) =
           Inl (StorageError (''Storage provider not available for type: '' @ tag)
                  VALIDATION_FAILED None))
    \<and> (\<forall>f info a. find (\<lambda>f. f_id f = i) (files s) = Some f \<and> f_storageInfo f = Some info
           \<and> adapters s tag = Some a
           \<and> (\<not> has_method a Download \<or> isl (download_result e a (si_storageFileId info))) \<longrightarrow>
         (\<exists>error. fst (downloadFile e i tag s) = Inl (download_failed error))
         \<and> accessCount_of (snd (downloadFile e i tag s)) i = Some (f_accessCount f + 1))"
proof (intro conjI impI allI)
  assume h: "has_storage s i \<and> adapters s tag \<noteq> None"
  then obtain f info a where f: "find (\<lambda>f. f_id f = i) (files s) = Some f"
    "f_storageInfo f = Some info" "adapters s tag = Some a"
    by (auto simp add: has_storage_iff)
  show "accessCount_of (snd (downloadFile e i tag s)) i = map_option (\<lambda>n. n + 1) (accessCount_of s i)"
    by (rule downloadFile_adapter_found(2)[OF assms f])
  show "accessCount_of s i \<noteq> None" by (simp add: accessCount_of_def f)
  show "files (snd (downloadFile e i tag s)) = increment_access i (files s)"
    by (rule downloadFile_adapter_found(1)[OF assms f])
next
  assume h: "\<not> (has_storage s i \<and> adapters s tag \<noteq> None)"
  show "snd (downloadFile e i tag s) = s"
  proof (cases "has_storage s i")
    case True
    then have "adapters s tag = None" using h by simp
    then show ?thesis using downloadFile_no_adapter[OF assms(1) True] by simp
  next
    case False
    then show ?thesis using downloadFile_not_found[OF assms(1)] by simp
  qed
next
  assume "has_storage s i \<and> adapters s tag = None"
  then show "fst (downloadFile e i tag s) =
           Inl (StorageError (''Storage provider not available for type: '' @ tag)
                  VALIDATION_FAILED None)"
    using downloadFile_no_adapter[OF assms(1)] by simp
next
  fix f info a
  assume h: "find (\<lambda>f. f_id f = i) (files s) = Some f \<and> f_storageInfo f = Some info
           \<and> adapters s tag = Some a
           \<and> (\<not> has_method a Download \<or> isl (download_result e a (si_storageFileId info)))"
  then have f: "find (\<lambda>f. f_id f = i) (files s) = Some f"
    "f_storageInfo f = Some info" "adapters s tag = Some a" by simp_all
  show "\<exists>error. fst (downloadFile e i tag s) = Inl (download_failed error)"
    using downloadFile_adapter_found(3)[OF assms f] h by blast
  show "accessCount_of (snd (downloadFile e i tag s)) i = Some (f_accessCount f + 1)"
    using downloadFile_adapter_found(2)[OF assms f] by (simp add: accessCount_of_def f)
qed

theorem access_counter_increment_witness:
  "\<not> db_fails stream_fails FileFindFirst \<and> \<not> db_fails stream_fails FileUpdate
   \<and> has_storage library ''f2'' \<and> adapters library ''azure'' = Some azure1
   \<and> accessCount_of library ''f2'' = Some 0
   \<and> accessCount_of (snd (downloadFile stream_fails ''f2'' ''azure'' library)) ''f2'' = Some 1
   \<and> (\<exists>error. fst (downloadFile stream_fails ''f2'' ''azure'' library) = Inl (download_failed error))
   \<and> snd (downloadFile stream_fails ''f2'' ''google'' library) = library"
proof -
  have a: "\<not> db_fails stream_fails FileFindFirst" "\<not> db_fails stream_fails FileUpdate"
    by (simp_all add: stream_fails_def)
  have b: "has_storage library ''f2''" by (simp add: has_storage_def library_fields)
  have c: "adapters library ''azure'' = Some azure1" "adapters library ''google'' = None"
    by (simp_all add: library_fields)
  have n: "accessCount_of library ''f2'' = Some 0" by (simp add: accessCount_of_def library_fields)
  have f: "find (\<lambda>f. f_id f = ''f2'') (files library) = Some (file_on ''f2'' ''azure'')"
    by (simp add: library_fields)
  have d: "isl (download_result stream_fails azure1 (si_storageFileId (info_on ''f2'' ''azure'')))"
    by (simp add: stream_fails_def)
  note T1 = access_counter_increment [OF a, of library "''f2''" "''azure''"]
  note T2 = access_counter_increment [OF a, of library "''f2''" "''google''"]
  from T1 b c(1) n have "accessCount_of (snd (downloadFile stream_fails ''f2'' ''azure'' library)) ''f2'' = Some 1"
    by simp
  moreover from T1 f c(1) d
  have "\<exists>error. fst (downloadFile stream_fails ''f2'' ''azure'' library) = Inl (download_failed error)"
    by (metis file_on_fields(2))
  moreover from T2 c(2) have "snd (downloadFile stream_fails ''f2'' ''google'' library) = library"
    by simp
  ultimately show ?thesis using a b c n by blast
qed

section \<open>Properties: permanent delete\<close>






section \<open>Properties: visibility of soft-deleted files\<close>

lemma take_skip_subset:
  "take_skip tk sk rows = Inr out \<Longrightarrow> set out \<subseteq> set rows"
  by (auto simp add: take_skip_def split: option.splits if_splits
        dest!: in_set_takeD in_set_dropD)

lemma fi_deletedAt_map [simp]: "fi_deletedAt (mapToFileInfoDto e f i) = f_deletedAt f"
  by (simp add: mapToFileInfoDto_def)

lemma listFiles_rows:
  assumes "listFiles e dto s = Inr resp" and "d \<in> set (lr_files resp)"
  shows "\<exists>f \<in> set (files s). f_deletedAt f = None \<and> d = mapToFileInfoDto e f (f_storageInfo f)"
proof -
  let ?matching = "sort_key (\<lambda>f. - f_createdAt f) (filter (listFiles_where dto) (files s))"
  let ?skip = "(case (lf_page dto, lf_limit dto) of
                    (Some p, Some l) \<Rightarrow> Some ((p - 1) * l)
                  | _ \<Rightarrow> None)"
  obtain rows where rows: "take_skip (lf_limit dto) ?skip ?matching = Inr rows"
    and files: "lr_files resp = map (\<lambda>file. mapToFileInfoDto e file (f_storageInfo file)) rows"
    using assms(1)
    by (auto simp add: listFiles_def Let_def split: if_splits sum.splits)
  from assms(2) files obtain f where f: "f \<in> set rows" "d = mapToFileInfoDto e f (f_storageInfo f)"
    by auto
  have "set rows \<subseteq> set ?matching" by (rule take_skip_subset[OF rows])
  then have "f \<in> set (filter (listFiles_where dto) (files s))" using f(1) by auto
  then have "f \<in> set (files s)" "f_deletedAt f = None"
    by (simp_all add: listFiles_where_def)
  then show ?thesis using f(2) by blast
qed

lemma getFileByUrl_parts_row:
  assumes "getFileByUrl_parts e year month branchName filename s = Inr d"
  shows "\<exists>f \<in> set (files s). f_deletedAt f = None \<and> d = mapToFileInfoDto e f (f_storageInfo f)"
proof -
  from assms obtain y m b f where
    f: "find (getFileByUrl_where e y m b branchName filename) (files s) = Some f"
       "d = mapToFileInfoDto e f (f_storageInfo f)"
    by (auto simp add: getFileByUrl_parts_def split: option.splits if_splits)
  from f(1) have "f \<in> set (files s)" "getFileByUrl_where e y m b branchName filename f"
    by (auto simp add: find_Some_iff)
  then have "f \<in> set (files s)" "f_deletedAt f = None"
    by (simp_all add: getFileByUrl_where_def)
  then show ?thesis using f(2) by blast
qed

lemma getFileByUrl_row:
  assumes "getFileByUrl e path s = Inr d"
  shows "\<exists>f \<in> set (files s). f_deletedAt f = None \<and> d = mapToFileInfoDto e f (f_storageInfo f)"
proof -
  from assms obtain year month branchName filename where
    "getFileByUrl_parts e year month branchName filename s = Inr d"
    by (auto simp add: getFileByUrl_def split: list.splits)
  then show ?thesis by (rule getFileByUrl_parts_row)
qed

text \<open>
  Claim C9 as amended. \<^verbatim>\<open>listFiles\<close> and \<^verbatim>\<open>getFileByUrl\<close> filter on
  \<^verbatim>\<open>deletedAt: null\<close>: every entry they return is built from a row of the metadata store
  whose \<open>deletedAt\<close> is not set.
\<close>

theorem soft_deleted_hidden_from_listing:
  "(listFiles e dto s = Inr resp \<longrightarrow>
      (\<forall>d \<in> set (lr_files resp). fi_deletedAt d = None
          \<and> (\<exists>f \<in> set (files s). f_deletedAt f = None \<and> d = mapToFileInfoDto e f (f_storageInfo f))))
   \<and> (getFileByUrl e path s = Inr info \<longrightarrow>
        fi_deletedAt info = None
        \<and> (\<exists>f \<in> set (files s). f_deletedAt f = None \<and> info = mapToFileInfoDto e f (f_storageInfo f)))"
proof (intro conjI impI ballI)
  fix d assume a: "listFiles e dto s = Inr resp" "d \<in> set (lr_files resp)"
  from listFiles_rows[OF a]
  show ex: "\<exists>f \<in> set (files s). f_deletedAt f = None \<and> d = mapToFileInfoDto e f (f_storageInfo f)" .
  then show "fi_deletedAt d = None" by auto
next
  assume a: "getFileByUrl e path s = Inr info"
  from getFileByUrl_row[OF a]
  show ex: "\<exists>f \<in> set (files s). f_deletedAt f = None \<and> info = mapToFileInfoDto e f (f_storageInfo f)" .
  then show "fi_deletedAt info = None" by auto
qed

lemma archive_fields:
  "files archive = [deleted_file, file_on ''f2'' ''azure'']"
  "adapters archive = [''aws'' \<mapsto> aws0, ''azure'' \<mapsto> azure1]"
  "branches archive = [\<lparr>b_id = ''b1'', b_name = ''seoul''\<rparr>]"
  "calls archive = []"
  by (simp_all add: archive_def library_fields)

lemma deleted_file_fields [simp]:
  "f_id deleted_file = ''f3''"
  "f_deletedAt deleted_file = Some 500"
  "f_storageInfo deleted_file = Some ((info_on ''f3'' ''azure'')\<lparr>si_isActive := False\<rparr>)"
  "f_name deleted_file = ''2024_3_seoul_a.jpg''"
  "f_mimeType deleted_file = ''image/jpeg''"
  "f_accessCount deleted_file = 0"
  by (simp_all add: deleted_file_def)

text \<open>
  Claim C9 as stated fails. The lookup of \<^verbatim>\<open>downloadFile\<close> filters on the id only: the
  soft-deleted file \<open>f3\<close> is found, its access counter is incremented and its stream is
  returned.
\<close>

theorem soft_deleted_file_is_downloaded:
  "f_deletedAt deleted_file = Some 500
   \<and> find (\<lambda>f. f_id f = ''f3'') (files archive) = Some deleted_file
   \<and> fst (downloadFile all_up ''f3'' ''azure'' archive) =
        Inr \<lparr>dl_stream = ''bytes'', dl_filename = ''2024_3_seoul_a.jpg'', dl_mimetype = ''image/jpeg''\<rparr>
   \<and> calls (snd (downloadFile all_up ''f3'' ''azure'' archive)) =
        [DownloadCall azure1 ''2024_3_seoul_a.jpg'']
   \<and> map f_accessCount (files (snd (downloadFile all_up ''f3'' ''azure'' archive))) = [1, 0]"
  by (simp add: downloadFile_def archive_fields has_method_def azure1_def increment_access_def
        Let_def)

lemma listFiles_first_page:
  "listFiles all_up first_page archive =
     Inr \<lparr>lr_files = [mapToFileInfoDto all_up (file_on ''f2'' ''azure'') (Some (info_on ''f2'' ''azure''))],
          lr_totalCount = 1, lr_currentPage = 1, lr_totalPages = 1\<rparr>"
proof -
  have w1: "\<not> listFiles_where first_page deleted_file"
    by (simp add: listFiles_where_def)
  have w2: "listFiles_where first_page (file_on ''f2'' ''azure'')"
    by (simp add: listFiles_where_def first_page_def file_on_def)
  have p: "lf_page first_page = Some 1" "lf_limit first_page = Some 10"
    by (simp_all add: first_page_def)
  show ?thesis
    by (simp add: listFiles_def archive_fields w1 w2 p take_skip_def Let_def)
qed

lemma getFileByUrl_live:
  "getFileByUrl all_up ''2024/3/seoul/a.jpg'' archive =
     Inr (mapToFileInfoDto all_up (file_on ''f2'' ''azure'') (Some (info_on ''f2'' ''azure'')))"
proof -
  have sp: "split_on CHR ''/'' ''2024/3/seoul/a.jpg'' = [''2024'', ''3'', ''seoul'', ''a.jpg'']"
    by simp
  have n: "to_number all_up (Some ''2024'') = Some 2024" "to_number all_up (Some ''3'') = Some 3"
    "number_string all_up 2024 = ''2024''" "number_string all_up 3 = ''3''"
    by (simp_all add: all_up_def)
  have w1: "\<not> getFileByUrl_where all_up 2024 3 \<lparr>b_id = ''b1'', b_name = ''seoul''\<rparr> ''seoul'' ''a.jpg'' deleted_file"
    by (simp add: getFileByUrl_where_def)
  have w2: "getFileByUrl_where all_up 2024 3 \<lparr>b_id = ''b1'', b_name = ''seoul''\<rparr> ''seoul'' ''a.jpg''
              (file_on ''f2'' ''azure'')"
    by (simp add: getFileByUrl_where_def n file_on_def)
  show ?thesis
    by (simp add: getFileByUrl_def sp getFileByUrl_parts_def n archive_fields w1 w2)
qed

theorem soft_deleted_hidden_from_listing_witness:
  "f_deletedAt (hd (files archive)) = Some 500
   \<and> map fi_storageFileId (lr_files (projr (listFiles all_up first_page archive))) = [''f2'']
   \<and> list_all (\<lambda>d. fi_deletedAt d = None) (lr_files (projr (listFiles all_up first_page archive)))
   \<and> fi_storageFileId (projr (getFileByUrl all_up ''2024/3/seoul/a.jpg'' archive)) = ''f2''
   \<and> fi_deletedAt (projr (getFileByUrl all_up ''2024/3/seoul/a.jpg'' archive)) = None"
proof -
  note T = soft_deleted_hidden_from_listing [of all_up first_page archive
     "projr (listFiles all_up first_page archive)" "''2024/3/seoul/a.jpg''"
     "projr (getFileByUrl all_up ''2024/3/seoul/a.jpg'' archive)"]
  have l: "listFiles all_up first_page archive = Inr (projr (listFiles all_up first_page archive))"
    by (simp add: listFiles_first_page)
  have g: "getFileByUrl all_up ''2024/3/seoul/a.jpg'' archive =
             Inr (projr (getFileByUrl all_up ''2024/3/seoul/a.jpg'' archive))"
    by (simp add: getFileByUrl_live)
  from T l have "\<forall>d \<in> set (lr_files (projr (listFiles all_up first_page archive))). fi_deletedAt d = None"
    by blast
  then have a: "list_all (\<lambda>d. fi_deletedAt d = None) (lr_files (projr (listFiles all_up first_page archive)))"
    by (simp add: list_all_iff)
  from T g have b: "fi_deletedAt (projr (getFileByUrl all_up ''2024/3/seoul/a.jpg'' archive)) = None"
    by blast
  have c: "map fi_storageFileId (lr_files (projr (listFiles all_up first_page archive))) = [''f2'']"
    by (simp add: listFiles_first_page mapToFileInfoDto_def)
  have d: "fi_storageFileId (projr (getFileByUrl all_up ''2024/3/seoul/a.jpg'' archive)) = ''f2''"
    by (simp add: getFileByUrl_live mapToFileInfoDto_def)
  have e: "f_deletedAt (hd (files archive)) = Some 500" by (simp add: archive_fields)
  show ?thesis using a b c d e by blast
qed

section \<open>Properties: signed-URL cache\<close>






section \<open>Properties: start-up\<close>

lemma createAdapter_aid: "createAdapter pe n p = Inr a \<Longrightarrow> aid a = n"
  by (auto simp add: createAdapter_def split: if_splits)

lemma register_all_ok:
  assumes "register_all pe normalise ps s = (None, s')" and "numbered (adapterList s)"
  shows "numbered (adapterList s') \<and> length (adapterList s') = length (adapterList s) + length ps
         \<and> currentAdapterIndex s' = currentAdapterIndex s \<and> files s' = files s \<and> calls s' = calls s"
  using assms
proof (induction ps arbitrary: s)
  case Nil
  then show ?case by simp
next
  case (Cons p ps)
  from Cons.prems(1) obtain a where a: "createAdapter pe (length (adapterList s)) (normalise p) = Inr a"
    by (cases "createAdapter pe (length (adapterList s)) (normalise p)") auto
  let ?s1 = "s\<lparr>adapters := (adapters s)(normalise p \<mapsto> a), adapterList := adapterList s @ [a]\<rparr>"
  have r: "register_all pe normalise ps ?s1 = (None, s')"
    using Cons.prems(1) a by simp
  have n: "numbered (adapterList ?s1)"
    using Cons.prems(2) createAdapter_aid[OF a] by (simp add: numbered_def)
  from Cons.IH[OF r n] show ?case by simp
qed

lemma numbered_distinct: "numbered xs \<Longrightarrow> distinct xs"
proof -
  assume "numbered xs"
  then have "distinct (map aid xs)" by (simp add: numbered_def)
  then show ?thesis by (simp add: distinct_map)
qed

text \<open>
  When \<^verbatim>\<open>initializeAdapters\<close> completes without an error on a new service, the adapter
  list is not empty, its instances are distinct, and the cursor is zero, hence in range:
  the conditions under which the failover and round-robin properties are stated.
\<close>

theorem initializeAdapters_registry:
  assumes "initializeAdapters pe normalise new_service = (None, s)"
  shows "adapterList s \<noteq> [] \<and> currentAdapterIndex s = 0
         \<and> currentAdapterIndex s < length (adapterList s) \<and> distinct (adapterList s)"
proof -
  let ?ps = "(case ENABLED_CLOUD_PROVIDERS pe of None \<Rightarrow> [] | Some v \<Rightarrow> split_on CHR '','' v)"
  from assms have r: "register_all pe normalise ?ps new_service = (None, s)" and ne: "adapterList s \<noteq> []"
    by (auto simp add: initializeAdapters_def Let_def split: if_splits option.splits prod.splits)
  have n0: "numbered (adapterList new_service)" by (simp add: numbered_def new_service_def)
  from register_all_ok[OF r n0] have "numbered (adapterList s)" "currentAdapterIndex s = 0"
    by (simp_all add: new_service_def)
  then show ?thesis using ne numbered_distinct by auto
qed

theorem initializeAdapters_registry_witness:
  "initializeAdapters aws_and_azure id new_service = (None, two_adapters\<lparr>currentAdapterIndex := 0\<rparr>)
   \<and> adapterList (two_adapters\<lparr>currentAdapterIndex := 0\<rparr>) \<noteq> []
   \<and> distinct (adapterList (two_adapters\<lparr>currentAdapterIndex := 0\<rparr>))"
proof -
  have sp: "split_on CHR '','' ''aws,azure'' = [''aws'', ''azure'']" by simp
  have i: "initializeAdapters aws_and_azure id new_service = (None, two_adapters\<lparr>currentAdapterIndex := 0\<rparr>)"
    by (simp add: initializeAdapters_def aws_and_azure_def sp createAdapter_def truthy_def
          new_service_def two_adapters_def aws0_def azure1_def Let_def)
  from initializeAdapters_registry[OF i] show ?thesis using i by simp
qed

end
